theory Spec2Isabelle
  imports Complex_Main "HOL-Library.AList"
begin

section \<open>Geometry kernel (r2vstk/util.py)\<close>

text \<open>
  Coordinates are Python ints: every coordinate of a raw record goes through
  \<open>convert_int\<close>, the wall splitter only produces floor-halved sums of them, and the
  straightener only copies coordinates between corners. Configuration values
  (tolerances, gradients, thresholds) are floats and are modelled as reals; so are the
  results of \<open>math.sqrt\<close> and of true division.
\<close>

type_synonym point = "int \<times> int"

text \<open>Exceptions a modelled function can raise, as values.\<close>

datatype py_exc = ZeroDivisionError | KeyError | IndexError | AssertionError | TopologicalError

text \<open>\<open>manhattan_distance_between\<close>: despite its name, the larger of the two coordinate
  differences (util.py line 110).\<close>

definition manhattan_distance_between :: "point \<Rightarrow> point \<Rightarrow> int" where
  "manhattan_distance_between a b = max \<bar>fst a - fst b\<bar> \<bar>snd a - snd b\<bar>"

definition sq_distance :: "point \<Rightarrow> point \<Rightarrow> real" where
  "sq_distance p1 p2 = sqrt (real_of_int ((fst p1 - fst p2)\<^sup>2 + (snd p1 - snd p2)\<^sup>2))"

section \<open>Wall splitter (r2vstk/wall\_split\_utils.py, House.split\_source\_walls)\<close>

type_synonym line = "point \<times> point"

text \<open>\<open>p[i]\<close> of a coordinate pair and \<open>line[c]\<close> of a line, for the indices 0 and 1 the
  code uses.\<close>

definition coord :: "point \<Rightarrow> nat \<Rightarrow> int" where
  "coord p i = (if i = 0 then fst p else snd p)"

definition endpoint :: "line \<Rightarrow> nat \<Rightarrow> point" where
  "endpoint l c = (if c = 0 then fst l else snd l)"

definition calcLineDirection :: "line \<Rightarrow> nat" where
  "calcLineDirection l =
     (if \<bar>fst (fst l) - fst (snd l)\<bar> < \<bar>snd (fst l) - snd (snd l)\<bar> then 1 else 0)"

definition lineRange :: "line \<Rightarrow> nat \<times> int \<times> int \<times> int" where
  "lineRange l =
     (let direction = calcLineDirection l;
          fixedValue = (coord (fst l) (1 - direction) + coord (snd l) (1 - direction)) div 2;
          minValue = min (coord (fst l) direction) (coord (snd l) direction);
          maxValue = max (coord (fst l) direction) (coord (snd l) direction)
      in (direction, fixedValue, minValue, maxValue))"

definition pointDistance :: "point \<Rightarrow> point \<Rightarrow> int" where
  "pointDistance point_1 point_2 =
     max \<bar>fst point_1 - fst point_2\<bar> \<bar>snd point_1 - snd point_2\<bar>"

text \<open>The first pair \<open>(c_1, c_2)\<close>, in the order (0,0), (0,1), (1,0), (1,1) of the two
  nested loops, whose endpoints are no further apart than \<open>gap\<close>.\<close>

definition point_connection :: "line \<Rightarrow> line \<Rightarrow> real \<Rightarrow> (nat \<times> nat) option" where
  "point_connection line_1 line_2 gap =
     List.find (\<lambda>(c_1, c_2).
         \<not> real_of_int (pointDistance (endpoint line_1 c_1) (endpoint line_2 c_2)) > gap)
       [(0, 0), (0, 1), (1, 0), (1, 1)]"

text \<open>\<open>_findConnections\<close> returns the list \<open>[connection_1, connection_2]\<close> (a pair of ints
  here) and the connection point.\<close>

definition findConnections :: "line \<Rightarrow> line \<Rightarrow> real \<Rightarrow> (int \<times> int) \<times> point" where
  "findConnections line_1 line_2 gap =
     (case point_connection line_1 line_2 gap of
        Some (c_1, c_2) \<Rightarrow>
          ((int c_1, int c_2),
           ((fst (endpoint line_1 c_1) + fst (endpoint line_2 c_2)) div 2,
            (snd (endpoint line_1 c_1) + snd (endpoint line_2 c_2)) div 2))
      | None \<Rightarrow>
          (let (direction_1, fixedValue_1, min_1, max_1) = lineRange line_1;
               (direction_2, fixedValue_2, min_2, max_2) = lineRange line_2
           in if direction_1 = direction_2 then ((-1, -1), (0, 0))
              else if real_of_int (min fixedValue_1 max_2) < real_of_int (max fixedValue_1 min_2) - gap
                      \<or> real_of_int (min fixedValue_2 max_1) < real_of_int (max fixedValue_2 min_1) - gap
                then ((-1, -1), (0, 0))
              else if real_of_int \<bar>min_1 - fixedValue_2\<bar> \<le> gap then ((0, 2), (fixedValue_2, fixedValue_1))
              else if real_of_int \<bar>max_1 - fixedValue_2\<bar> \<le> gap then ((1, 2), (fixedValue_2, fixedValue_1))
              else if real_of_int \<bar>min_2 - fixedValue_1\<bar> \<le> gap then ((2, 0), (fixedValue_2, fixedValue_1))
              else if real_of_int \<bar>max_2 - fixedValue_1\<bar> \<le> gap then ((2, 1), (fixedValue_2, fixedValue_1))
              else ((2, 2), (fixedValue_2, fixedValue_1))))"

text \<open>\<open>find_connections(l1, l2, gap)\<close>: both calls pass the literal \<open>gap=5\<close>; the
  parameter \<open>gap\<close> is not used.\<close>

definition find_connections :: "line \<Rightarrow> line \<Rightarrow> real \<Rightarrow> (int \<times> int) \<times> point" where
  "find_connections l1 l2 gap =
     (if fst (fst l1) = fst (snd l1)
      then (let (r, p) = findConnections l2 l1 5 in ((snd r, fst r), p))
      else findConnections l1 l2 5)"

text \<open>A parsed record (\<open>datum\<close>) of \<open>House.walls\<close> or \<open>House.openings\<close>: a dict with the four coordinates, the
  category and either the two room types (records of an R2V output file) or the two
  unused columns \<open>dump_1\<close> and \<open>dump_2\<close> (records of an annotation file). The
  splitter copies the keys \<open>dump1\<close> and \<open>dump2\<close>, which no record has, so the
  children of a broken wall carry neither.\<close>

record datum =
  x_min :: int
  y_min :: int
  x_max :: int
  y_max :: int
  category :: string
  left_room_type :: "string option"
  right_room_type :: "string option"
  dump_1 :: "string option"
  dump_2 :: "string option"

text \<open>The values of \<open>conf.parser_config\<close> the core reads.\<close>

record parser_config =
  wall_join_margin :: real
  split_walls_max_iter :: int
  straighten_walls_cutoff_gradient :: real
  straighten_walls_max_iter :: int
  eliminate_false_rooms_enabled :: bool
  eliminate_false_rooms_threshold :: real
  max_door_perpendicular_offset :: real

definition is_manhattan :: "datum \<Rightarrow> bool" where
  "is_manhattan w \<longleftrightarrow> x_min w = x_max w \<or> y_min w = y_max w"

definition wall_line :: "datum \<Rightarrow> line" where
  "wall_line w = ((x_min w, y_min w), (x_max w, y_max w))"

text \<open>The two children of a broken wall: \<open>seg1\<close> from the wall's start to \<open>p\<close>, \<open>seg2\<close>
  from \<open>p\<close> to its end, each with the parent's room types.\<close>

definition seg1 :: "datum \<Rightarrow> point \<Rightarrow> datum" where
  "seg1 to_break p =
     \<lparr>x_min = x_min to_break, y_min = y_min to_break, x_max = fst p, y_max = snd p,
      category = ''wall'', left_room_type = left_room_type to_break,
      right_room_type = right_room_type to_break, dump_1 = None, dump_2 = None\<rparr>"

definition seg2 :: "datum \<Rightarrow> point \<Rightarrow> datum" where
  "seg2 to_break p =
     \<lparr>x_min = fst p, y_min = snd p, x_max = x_max to_break, y_max = y_max to_break,
      category = ''wall'', left_room_type = left_room_type to_break,
      right_room_type = right_room_type to_break, dump_1 = None, dump_2 = None\<rparr>"

text \<open>\<open>del self.walls[i]\<close>.\<close>

definition del_at :: "nat \<Rightarrow> 'a list \<Rightarrow> 'a list" where
  "del_at i xs = take i xs @ drop (Suc i) xs"

text \<open>The body of the inner loop for the walls at indices \<open>i1\<close> and \<open>i2\<close>: the new wall
  list when one of the two is broken, \<open>None\<close> when the loop goes on.\<close>

definition split_pair :: "real \<Rightarrow> datum list \<Rightarrow> nat \<Rightarrow> nat \<Rightarrow> datum list option" where
  "split_pair margin ws i1 i2 =
     (let wall1 = ws ! i1; wall2 = ws ! i2
      in if \<not> is_manhattan wall2 then None
         else if wall1 = wall2 then None
         else (let (t, p) = find_connections (wall_line wall1) (wall_line wall2) margin
               in if fst t = 2 then Some (del_at i1 ws @ [seg1 wall1 p, seg2 wall1 p])
                  else if snd t = 2 then Some (del_at i2 ws @ [seg1 wall2 p, seg2 wall2 p])
                  else None))"

text \<open>The inner \<open>for i2\<close> loop and the outer \<open>for i1\<close> loop, over the indices still to
  visit. A break of the inner loop after a split leaves \<open>start_over\<close> set; the list has
  grown by one, so the outer loop always has a next element, where it clears the flag
  and breaks: one pass ends at its first split.\<close>

fun inner_loop :: "real \<Rightarrow> datum list \<Rightarrow> nat \<Rightarrow> nat list \<Rightarrow> datum list option" where
  "inner_loop margin ws i1 [] = None"
| "inner_loop margin ws i1 (i2 # is) =
     (case split_pair margin ws i1 i2 of
        Some ws' \<Rightarrow> Some ws'
      | None \<Rightarrow> inner_loop margin ws i1 is)"

fun outer_loop :: "real \<Rightarrow> datum list \<Rightarrow> nat list \<Rightarrow> datum list option" where
  "outer_loop margin ws [] = None"
| "outer_loop margin ws (i1 # is) =
     (if \<not> is_manhattan (ws ! i1) then outer_loop margin ws is
      else (case inner_loop margin ws i1 [0..<length ws] of
              Some ws' \<Rightarrow> Some ws'
            | None \<Rightarrow> outer_loop margin ws is))"

text \<open>The \<open>while changed and left_iterations > 0\<close> loop.\<close>

function split_loop :: "real \<Rightarrow> int \<Rightarrow> datum list \<Rightarrow> datum list" where
  "split_loop margin left_iterations ws =
     (if left_iterations > 0
      then (case outer_loop margin ws [0..<length ws] of
              Some ws' \<Rightarrow> split_loop margin (left_iterations - 1) ws'
            | None \<Rightarrow> ws)
      else ws)"
  by pat_completeness auto
termination
  by (relation "measure (\<lambda>(margin, left_iterations, ws). nat left_iterations)") auto

declare split_loop.simps [simp del]

definition split_source_walls :: "parser_config \<Rightarrow> datum list \<Rightarrow> datum list" where
  "split_source_walls conf ws =
     split_loop (wall_join_margin conf) (split_walls_max_iter conf) ws"


section \<open>Wall graph (r2vstk/floorplan.py)\<close>

text \<open>
  \<open>Corner\<close>, \<open>Wall\<close> and \<open>Hole\<close> define \<open>__hash__\<close> but not \<open>__eq__\<close>: two of them are
  equal when they are the same object. Objects are therefore references (naturals), and
  the state holds one store per attribute, indexed by reference, with an allocation
  counter per class. \<open>House\<close> and its \<open>WallLinkageGraph\<close> are one record.

  \<open>wall_corners\<close> is a dict from the key \<open>str(x) + "_" + str(y)\<close> to a Corner;
  \<open>find_closest\<close> walks its values in insertion order, so it is an association list:
  \<open>AList.update\<close> replaces the value of a key in place or appends a new key, as a dict
  assignment does, and \<open>AList.delete\<close> removes a key.

  \<open>Wall.__hash__\<close> is \<open>hash(str(self))\<close>, and \<open>str\<close> of a wall is built from the
  positions its two Corners have when it is called. A set stores each element with
  the hash it had when it was inserted, and \<open>x in s\<close> finds an element whose stored hash
  is \<open>hash(x)\<close> now and which is \<open>x\<close> itself. The hash of a string stands for the string:
  two different strings are taken to hash differently. A room key, the frozenset of
  the room's walls, is therefore a set of pairs of a Wall and the string it was stored
  under; two frozensets are equal when they hold the same pairs.
  \<open>room_description_map\<close> maps a room key to the RoomDescription, of which the ordered
  wall list is kept. An RDR edge is \<open>(room key, Hole, room key or None)\<close>.

  \<open>id_gen.ran\<close> is a module-level \<open>Random()\<close>, seeded by the interpreter from the
  operating system when the module is imported: \<open>ran_draws\<close> is the sequence of values
  its \<open>randint(0, RAND_MAX)\<close> will return, \<open>ran_used\<close> the number of draws made.
\<close>

type_synonym room_key = "(nat \<times> string) set"

record house =
  file_name :: string
  Corner_pos :: "nat \<Rightarrow> point"
  Corner_adj :: "nat \<Rightarrow> nat list"
  n_corners :: nat
  Wall_p1 :: "nat \<Rightarrow> nat"
  Wall_p2 :: "nat \<Rightarrow> nat"
  Wall_holes :: "nat \<Rightarrow> nat list"
  Wall_left_room_type :: "nat \<Rightarrow> string option"
  Wall_right_room_type :: "nat \<Rightarrow> string option"
  n_walls :: nat
  Hole_min_x :: "nat \<Rightarrow> int"
  Hole_max_x :: "nat \<Rightarrow> int"
  Hole_type :: "nat \<Rightarrow> string option"
  Hole_id :: "nat \<Rightarrow> string"
  n_holes :: nat
  wall_corners :: "(string \<times> nat) list"
  tolerance_distance :: real
  walls :: "nat list"
  room_description_map :: "(room_key \<times> nat list) list"
  rdr :: "(room_key \<times> nat \<times> room_key option) list"
  ran_draws :: "nat \<Rightarrow> int"
  ran_used :: nat

text \<open>\<open>str\<close> of a Python int, and the key \<open>str(x) + "_" + str(y)\<close> of a position
  (\<open>Corner.__repr__\<close>).\<close>

fun str_nat :: "nat \<Rightarrow> string" where
  "str_nat n =
     (if n < 10 then [''0123456789'' ! n]
      else str_nat (n div 10) @ [''0123456789'' ! (n mod 10)])"

declare str_nat.simps [simp del]

definition str_int :: "int \<Rightarrow> string" where
  "str_int i = (if i < 0 then CHR ''-'' # str_nat (nat (- i)) else str_nat (nat i))"

definition corner_key :: "point \<Rightarrow> string" where
  "corner_key p = str_int (fst p) @ ''_'' @ str_int (snd p)"

text \<open>\<open>LineSegment.__repr__\<close>, the string a Wall is hashed by: \<open>"<" + str(p1) + ":" +
  str(p2) + ">"\<close> at the current positions of its Corners. \<open>frozenset(walls)\<close> built in a
  state, and the test \<open>wall in room_key\<close> made in a state.\<close>

definition LineSegment_repr :: "house \<Rightarrow> nat \<Rightarrow> string" where
  "LineSegment_repr s wall =
     ''<'' @ corner_key (Corner_pos s (Wall_p1 s wall)) @ '':''
       @ corner_key (Corner_pos s (Wall_p2 s wall)) @ ''>''"

definition frozenset :: "house \<Rightarrow> nat list \<Rightarrow> room_key" where
  "frozenset s ws = set (map (\<lambda>wall. (wall, LineSegment_repr s wall)) ws)"

definition wall_in :: "house \<Rightarrow> nat \<Rightarrow> room_key \<Rightarrow> bool" where
  "wall_in s wall room_key \<longleftrightarrow> (wall, LineSegment_repr s wall) \<in> room_key"

text \<open>\<open>find_closest(target, other_nodes, cutoff_distance, exclude)\<close>: the closest and the
  second closest Corner among those strictly nearer than the cutoff. \<open>sorted\<close> is
  stable, and so is \<open>sort_key\<close>.\<close>

definition distance_tuples ::
  "house \<Rightarrow> point \<Rightarrow> (string \<times> nat) list \<Rightarrow> real \<Rightarrow> nat list \<Rightarrow> (int \<times> nat) list" where
  "distance_tuples s target other_nodes cutoff_distance exclude =
     filter (\<lambda>(distance, other_node). real_of_int distance < cutoff_distance)
       (map (\<lambda>other_node.
               (manhattan_distance_between (Corner_pos s other_node) target, other_node))
          (filter (\<lambda>other_node. other_node \<notin> set exclude) (map snd other_nodes)))"

definition find_closest ::
  "house \<Rightarrow> point \<Rightarrow> (string \<times> nat) list \<Rightarrow> real \<Rightarrow> nat list \<Rightarrow> nat option \<times> nat option" where
  "find_closest s target other_nodes cutoff_distance exclude =
     (case sort_key fst (distance_tuples s target other_nodes cutoff_distance exclude) of
        a # b # rest \<Rightarrow> (Some (snd a), Some (snd b))
      | [a] \<Rightarrow> (Some (snd a), None)
      | [] \<Rightarrow> (None, None))"

text \<open>\<open>n = Corner(p); self.wall_corners[str(p[0]) + "_" + str(p[1])] = n\<close>.\<close>

definition new_corner :: "point \<Rightarrow> house \<Rightarrow> nat \<times> house" where
  "new_corner p s =
     (let n = n_corners s
      in (n, s\<lparr>Corner_pos := (Corner_pos s)(n := p),
                Corner_adj := (Corner_adj s)(n := []),
                n_corners := Suc n,
                wall_corners := AList.update (corner_key p) n (wall_corners s)\<rparr>))"

text \<open>An endpoint that resolved to \<open>None\<close> gets a new Corner.\<close>

definition or_new_corner :: "nat option \<Rightarrow> point \<Rightarrow> house \<Rightarrow> nat \<times> house" where
  "or_new_corner n p s = (case n of None \<Rightarrow> new_corner p s | Some c \<Rightarrow> (c, s))"

text \<open>\<open>wall = Wall(n1, n2, ...); self.walls.append(wall); n1.adj.append(wall);
  n2.adj.append(wall)\<close>.\<close>

definition link_wall :: "nat \<Rightarrow> nat \<Rightarrow> string option \<Rightarrow> string option \<Rightarrow> house \<Rightarrow> house" where
  "link_wall n1 n2 l r s =
     (let wall = n_walls s;
          adj1 = (Corner_adj s)(n1 := Corner_adj s n1 @ [wall])
      in s\<lparr>Wall_p1 := (Wall_p1 s)(wall := n1),
            Wall_p2 := (Wall_p2 s)(wall := n2),
            Wall_holes := (Wall_holes s)(wall := []),
            Wall_left_room_type := (Wall_left_room_type s)(wall := l),
            Wall_right_room_type := (Wall_right_room_type s)(wall := r),
            n_walls := Suc wall,
            walls := walls s @ [wall],
            Corner_adj := adj1(n2 := adj1 n2 @ [wall])\<rparr>)"

text \<open>\<open>WallLinkageGraph.add_wall\<close>. A degenerate wall is logged and dropped; the final
  assertion raises when the two resolved Corners are at the same position.\<close>

definition add_wall ::
  "point \<Rightarrow> point \<Rightarrow> string option \<Rightarrow> string option \<Rightarrow> house \<Rightarrow> py_exc + house" where
  "add_wall p1 p2 l r s0 =
     (if fst p1 = fst p2 \<and> snd p1 = snd p2 then Inr s0
      else
        (let (c1, n1_backup) = find_closest s0 p1 (wall_corners s0) (tolerance_distance s0) [];
             (n1, s1) = or_new_corner c1 p1 s0;
             (c2, n2_backup) = find_closest s1 p2 (wall_corners s1) (tolerance_distance s1) [];
             (n2, s2) = or_new_corner c2 p2 s1;
             (t1, t2) =
               (if n1 = n2
                then (if manhattan_distance_between (Corner_pos s2 n1) p1
                           < manhattan_distance_between (Corner_pos s2 n1) p2
                      then (Some n1, n2_backup) else (n1_backup, Some n2))
                else (Some n1, Some n2));
             (m1, s3) = or_new_corner t1 p1 s2;
             (m2, s4) = or_new_corner t2 p2 s3
         in if fst (Corner_pos s4 m1) = fst (Corner_pos s4 m2)
                 \<and> snd (Corner_pos s4 m1) = snd (Corner_pos s4 m2)
            then Inl AssertionError
            else Inr (link_wall m1 m2 l r s4)))"


section \<open>Wall straightener (House.straighten\_walls)\<close>

text \<open>\<open>StraightenWallsFailed(house_path, iter_count)\<close>, raised \<open>from\<close> the exception
  it wraps.\<close>

datatype pipeline_error =
  StraightenWallsFailed (err_house_path: string) (err_iter_count: int) (err_cause: py_exc)

text \<open>The two slopes the straightener tests:
  \<open>abs(wall.p1.pos[0] - wall.p2.pos[0]) / sq_distance(wall.p1.pos, wall.p2.pos)\<close>, and
  the same with index 1.\<close>

definition x_slope :: "house \<Rightarrow> nat \<Rightarrow> real" where
  "x_slope s wall =
     real_of_int \<bar>fst (Corner_pos s (Wall_p1 s wall)) - fst (Corner_pos s (Wall_p2 s wall))\<bar>
       / sq_distance (Corner_pos s (Wall_p1 s wall)) (Corner_pos s (Wall_p2 s wall))"

definition y_slope :: "house \<Rightarrow> nat \<Rightarrow> real" where
  "y_slope s wall =
     real_of_int \<bar>snd (Corner_pos s (Wall_p1 s wall)) - snd (Corner_pos s (Wall_p2 s wall))\<bar>
       / sq_distance (Corner_pos s (Wall_p1 s wall)) (Corner_pos s (Wall_p2 s wall))"

text \<open>The scan \<open>for wall in self.wall_graph.walls\<close> for the first inclined wall. Each
  test divides by \<open>sq_distance\<close>, a float: Python raises ZeroDivisionError when the
  wall's two Corners are at the same position.\<close>

fun find_inclined_wall :: "house \<Rightarrow> real \<Rightarrow> nat list \<Rightarrow> py_exc + nat option" where
  "find_inclined_wall s cutoff [] = Inr None"
| "find_inclined_wall s cutoff (wall # rest) =
     (if sq_distance (Corner_pos s (Wall_p1 s wall)) (Corner_pos s (Wall_p2 s wall)) = 0
      then Inl ZeroDivisionError
      else if 0 < x_slope s wall \<and> x_slope s wall < cutoff then Inr (Some wall)
      else if 0 < y_slope s wall \<and> y_slope s wall < cutoff then Inr (Some wall)
      else find_inclined_wall s cutoff rest)"

text \<open>The Corner to move and its new position: for an x axis correction the endpoint
  with the smaller y ("the top vertex"; \<open>p2\<close> when the two are level) takes its
  partner's x, otherwise the endpoint with the smaller x ("the left vertex"; \<open>p2\<close> when
  level) takes its partner's y.\<close>

definition choose_move :: "house \<Rightarrow> real \<Rightarrow> nat \<Rightarrow> nat \<times> point" where
  "choose_move s cutoff found_wall =
     (let p1 = Wall_p1 s found_wall; p2 = Wall_p2 s found_wall;
          a = Corner_pos s p1; b = Corner_pos s p2
      in if 0 < x_slope s found_wall \<and> x_slope s found_wall < cutoff
         then (if snd a < snd b then (p1, (fst b, snd a)) else (p2, (fst a, snd b)))
         else (if fst a < fst b then (p1, (fst a, snd b)) else (p2, (fst b, snd a))))"

text \<open>The key is taken before the position is written; \<open>del\<close> raises KeyError when the
  index has no such key, after the position has changed.\<close>

definition move_corner :: "nat \<Rightarrow> point \<Rightarrow> house \<Rightarrow> py_exc option \<times> house" where
  "move_corner move_point new_pos s =
     (let moved_point_key = corner_key (Corner_pos s move_point);
          s' = s\<lparr>Corner_pos := (Corner_pos s)(move_point := new_pos)\<rparr>
      in if moved_point_key \<notin> fst ` set (wall_corners s') then (Some KeyError, s')
         else (None, s'\<lparr>wall_corners :=
                  AList.update (corner_key new_pos) move_point
                    (AList.delete moved_point_key (wall_corners s'))\<rparr>))"

text \<open>One run of the \<open>try\<close> body: the loop is left (\<open>Break\<close>), a wall was corrected
  (\<open>Continue\<close>), or an exception was raised.\<close>

datatype step = Break | Continue | Raise py_exc

definition correction_step :: "real \<Rightarrow> house \<Rightarrow> step \<times> house" where
  "correction_step cutoff s =
     (case find_inclined_wall s cutoff (walls s) of
        Inl e \<Rightarrow> (Raise e, s)
      | Inr None \<Rightarrow> (Break, s)
      | Inr (Some found_wall) \<Rightarrow>
          (if sq_distance (Corner_pos s (Wall_p1 s found_wall))
                (Corner_pos s (Wall_p2 s found_wall)) = 0
           then (Raise ZeroDivisionError, s)
           else (let (move_point, new_pos) = choose_move s cutoff found_wall
                 in case move_corner move_point new_pos s of
                      (Some e, s') \<Rightarrow> (Raise e, s')
                    | (None, s') \<Rightarrow> (Continue, s'))))"

function straighten_loop ::
  "real \<Rightarrow> int \<Rightarrow> int \<Rightarrow> house \<Rightarrow> pipeline_error option \<times> house" where
  "straighten_loop cutoff max_iter_count iter_count s =
     (if iter_count < max_iter_count
      then (case correction_step cutoff s of
              (Break, s') \<Rightarrow> (None, s')
            | (Continue, s') \<Rightarrow> straighten_loop cutoff max_iter_count (iter_count + 1) s'
            | (Raise e, s') \<Rightarrow> (Some (StraightenWallsFailed (file_name s') iter_count e), s'))
      else (None, s))"
  by pat_completeness auto
termination
  by (relation "measure (\<lambda>(cutoff, max_iter_count, iter_count, s).
        nat (max_iter_count - iter_count))") auto

declare straighten_loop.simps [simp del]

text \<open>\<open>House.straighten_walls(conf)\<close>: the error it raises, if any, and the state it
  leaves (the graph is mutated in place, also when it raises).\<close>

definition straighten_walls :: "parser_config \<Rightarrow> house \<Rightarrow> pipeline_error option \<times> house" where
  "straighten_walls conf s =
     straighten_loop (straighten_walls_cutoff_gradient conf) (straighten_walls_max_iter conf) 0 s"


text \<open>The state after \<open>k\<close> runs of the \<open>try\<close> body that each corrected a wall; \<open>None\<close>
  when one of them left the loop or raised.\<close>

fun corrections :: "real \<Rightarrow> nat \<Rightarrow> house \<Rightarrow> house option" where
  "corrections cutoff 0 s = Some s"
| "corrections cutoff (Suc k) s =
     (case correction_step cutoff s of
        (Continue, s') \<Rightarrow> corrections cutoff k s'
      | (Break, s') \<Rightarrow> None
      | (Raise e, s') \<Rightarrow> None)"

section \<open>Room extractor (util.find\_room)\<close>

text \<open>\<open>find_angle\<close>: the angle of a vector in degrees; the division raises on the zero
  vector.\<close>

definition find_angle :: "point \<Rightarrow> py_exc + real" where
  "find_angle p =
     (let h = sqrt (real_of_int ((fst p)\<^sup>2 + (snd p)\<^sup>2))
      in if h = 0 then Inl ZeroDivisionError
         else (let ang = arccos (real_of_int (fst p) / h) * 180 / pi
               in Inr (if snd p > 0 then - ang else ang)))"

definition find_angle_between :: "point \<Rightarrow> point \<Rightarrow> py_exc + real" where
  "find_angle_between v1 v2 =
     (case find_angle v2 of
        Inl e \<Rightarrow> Inl e
      | Inr a2 \<Rightarrow>
          (case find_angle v1 of
             Inl e \<Rightarrow> Inl e
           | Inr a1 \<Rightarrow>
               Inr ((if a2 < 0 then 360 + a2 else a2) - (if a1 < 0 then 360 + a1 else a1))))"

text \<open>The other endpoint of a wall, as the code finds it: \<open>p1\<close>, or \<open>p2\<close> when \<open>p1\<close> is
  the vertex itself.\<close>

definition other_end :: "house \<Rightarrow> nat \<Rightarrow> nat \<Rightarrow> nat" where
  "other_end s wall vertex =
     (if Wall_p1 s wall = vertex then Wall_p2 s wall else Wall_p1 s wall)"

text \<open>The loop of \<open>_find_next_wall\<close> over \<open>vertex.adj\<close> that builds
  \<open>walls_with_angles\<close>.\<close>

fun walls_with_angles ::
  "house \<Rightarrow> nat \<Rightarrow> nat \<Rightarrow> point \<Rightarrow> nat list \<Rightarrow> py_exc + (real \<times> nat) list" where
  "walls_with_angles s vertex in_wall in_other_vector [] = Inr []"
| "walls_with_angles s vertex in_wall in_other_vector (wall # rest) =
     (if wall = in_wall then walls_with_angles s vertex in_wall in_other_vector rest
      else
        (let adj_other = other_end s wall vertex;
             adj_other_vector =
               (fst (Corner_pos s adj_other) - fst (Corner_pos s vertex),
                snd (Corner_pos s adj_other) - snd (Corner_pos s vertex))
         in case find_angle_between in_other_vector adj_other_vector of
              Inl e \<Rightarrow> Inl e
            | Inr angle_between \<Rightarrow>
                (case walls_with_angles s vertex in_wall in_other_vector rest of
                   Inl e \<Rightarrow> Inl e
                 | Inr others \<Rightarrow>
                     Inr ((if angle_between < 0 then angle_between + 360 else angle_between,
                           wall) # others))))"

text \<open>\<open>_find_next_wall(vertex, in_wall)\<close>: \<open>None\<close> at a Corner with one incident wall,
  otherwise the candidate with the smallest angle; \<open>walls_with_angles[0]\<close> raises
  IndexError when there is no candidate.\<close>

definition find_next_wall :: "house \<Rightarrow> nat \<Rightarrow> nat \<Rightarrow> py_exc + nat option" where
  "find_next_wall s vertex in_wall =
     (if length (Corner_adj s vertex) = 1 then Inr None
      else
        (let in_other = other_end s in_wall vertex;
             in_other_vector =
               (fst (Corner_pos s in_other) - fst (Corner_pos s vertex),
                snd (Corner_pos s in_other) - snd (Corner_pos s vertex))
         in case walls_with_angles s vertex in_wall in_other_vector (Corner_adj s vertex) of
              Inl e \<Rightarrow> Inl e
            | Inr was \<Rightarrow>
                (case sort_key fst was of
                   [] \<Rightarrow> Inl IndexError
                 | first # later \<Rightarrow> Inr (Some (snd first)))))"

text \<open>The \<open>while iter_count < 500\<close> loop of \<open>find_room\<close>; \<open>room_walls\<close> is the list the
  code calls \<open>walls\<close>, never empty.\<close>

function find_room_loop :: "house \<Rightarrow> nat list \<Rightarrow> nat \<Rightarrow> nat \<Rightarrow> py_exc + nat list" where
  "find_room_loop s room_walls current_node iter_count =
     (if iter_count < 500
      then (case find_next_wall s current_node (last room_walls) of
              Inl e \<Rightarrow> Inl e
            | Inr next_wall \<Rightarrow>
                (if next_wall = Some (hd room_walls) then Inr room_walls
                 else (case next_wall of
                         None \<Rightarrow>
                           (let new_current_wall = last room_walls;
                                new_current_node = other_end s new_current_wall current_node
                            in find_room_loop s (room_walls @ [new_current_wall])
                                 new_current_node (iter_count + 1))
                       | Some w \<Rightarrow>
                           (let new_current_node = other_end s w current_node
                            in find_room_loop s (room_walls @ [w])
                                 new_current_node (iter_count + 1)))))
      else Inr room_walls)"
  by pat_completeness auto
termination
  by (relation "measure (\<lambda>(s, room_walls, current_node, iter_count). 500 - iter_count)") auto

declare find_room_loop.simps [simp del]

definition find_room :: "house \<Rightarrow> nat \<Rightarrow> nat \<Rightarrow> py_exc + nat list" where
  "find_room s start_node start_wall = find_room_loop s [start_wall] start_node 0"




section \<open>Room polygons and the room filter (util.get\_polyline,
  House.\_eliminate\_false\_rooms)\<close>

text \<open>The \<open>for\<close> loop of \<open>get_polyline\<close>: the first unvisited wall with an endpoint at
  the last point, with the point it adds and the walls left.\<close>

fun next_point :: "house \<Rightarrow> nat \<Rightarrow> nat list \<Rightarrow> (nat \<times> nat list) option" where
  "next_point s last_point [] = None"
| "next_point s last_point (w # ws) =
     (if Wall_p1 s w = last_point then Some (Wall_p2 s w, ws)
      else if Wall_p2 s w = last_point then Some (Wall_p1 s w, ws)
      else (case next_point s last_point ws of
              None \<Rightarrow> None
            | Some (p, rest) \<Rightarrow> Some (p, w # rest)))"

function polyline_loop :: "house \<Rightarrow> nat list \<Rightarrow> nat list \<Rightarrow> nat list" where
  "polyline_loop s points unvisited_walls =
     (if length unvisited_walls > 0
      then (case next_point s (last points) unvisited_walls of
              None \<Rightarrow> points
            | Some (p, rest) \<Rightarrow> polyline_loop s (points @ [p]) rest)
      else points)"
  by pat_completeness auto
termination
proof (relation "measure (\<lambda>(s, points, unvisited_walls). length unvisited_walls)")
  show "wf (measure (\<lambda>(s, points, unvisited_walls). length unvisited_walls))"
    by simp
next
  fix s :: house and points unvisited_walls :: "nat list" and x2 p rest
  assume "next_point s (last points) unvisited_walls = Some x2" and "(p, rest) = x2"
  then have found: "next_point s (last points) unvisited_walls = Some (p, rest)"
    by simp
  have "next_point s l ws = Some (q, r) \<Longrightarrow> length r < length ws" for l ws q r
    by (induction ws arbitrary: q r) (auto split: if_splits option.splits)
  from this [OF found]
  show "((s, points @ [p], rest), (s, points, unvisited_walls))
          \<in> measure (\<lambda>(s, points, unvisited_walls). length unvisited_walls)"
    by simp
qed

declare polyline_loop.simps [simp del]

text \<open>\<open>get_polyline(walls)\<close>; \<open>walls[0]\<close> raises IndexError on an empty list.\<close>

definition get_polyline :: "house \<Rightarrow> nat list \<Rightarrow> py_exc + point list" where
  "get_polyline s ws =
     (case ws of
        [] \<Rightarrow> Inl IndexError
      | w # rest \<Rightarrow> Inr (map (Corner_pos s) (polyline_loop s [Wall_p1 s w, Wall_p2 s w] rest)))"

text \<open>
  Shapely is a library the repository calls, taken as a parameter. A Polygon is stood
  for by the coordinate list it is built from. \<open>Polygon_ok\<close>: the constructor returns
  (the code catches anything it raises and skips the room); \<open>Polygon_area\<close>: the
  \<open>area\<close> of the Polygon; \<open>intersection\<close>: the exception \<open>parent.intersection(child)\<close>
  raises, or \<open>Some\<close> of the result's area when the result is an instance of Polygon and
  \<open>None\<close> when it is any other geometry.
\<close>

record shapely =
  Polygon_ok :: "point list \<Rightarrow> bool"
  Polygon_area :: "point list \<Rightarrow> real"
  intersection :: "point list \<Rightarrow> point list \<Rightarrow> py_exc + real option"

text \<open>The inner loop over the child candidates: the list \<open>contained_children\<close>, of
  which only the areas (\<open>a[1]\<close>, the child's own \<open>area\<close>) are read.\<close>

fun contained_children ::
  "shapely \<Rightarrow> house \<Rightarrow> room_key \<Rightarrow> point list \<Rightarrow> (room_key \<times> nat list) list \<Rightarrow> py_exc + real list" where
  "contained_children sh s parent_candidate_key parent_polyline [] = Inr []"
| "contained_children sh s parent_candidate_key parent_polyline
       ((child_candidate_key, child_walls) # rest) =
     (if child_candidate_key = parent_candidate_key
      then contained_children sh s parent_candidate_key parent_polyline rest
      else
        (case get_polyline s child_walls of
           Inl e \<Rightarrow> Inl e
         | Inr child_polyline \<Rightarrow>
             (if length child_polyline < 3
              then contained_children sh s parent_candidate_key parent_polyline rest
              else if \<not> Polygon_ok sh child_polyline
              then contained_children sh s parent_candidate_key parent_polyline rest
              else
                (case intersection sh parent_polyline child_polyline of
                   Inl e \<Rightarrow> Inl e
                 | Inr overlap \<Rightarrow>
                     (case contained_children sh s parent_candidate_key parent_polyline rest of
                        Inl e \<Rightarrow> Inl e
                      | Inr others \<Rightarrow>
                          (case overlap of
                             None \<Rightarrow> Inr others
                           | Some a \<Rightarrow>
                               if a > 0 then Inr (Polygon_area sh child_polyline # others)
                               else Inr others))))))"

text \<open>The outer loop over the parent candidates: the list \<open>fully_contained_keys\<close>.\<close>

fun fully_contained_keys ::
  "shapely \<Rightarrow> real \<Rightarrow> house \<Rightarrow> (room_key \<times> nat list) list \<Rightarrow> py_exc + room_key list" where
  "fully_contained_keys sh threshold s [] = Inr []"
| "fully_contained_keys sh threshold s ((parent_candidate_key, parent_walls) # rest) =
     (case get_polyline s parent_walls of
        Inl e \<Rightarrow> Inl e
      | Inr parent_polyline \<Rightarrow>
          (if length parent_polyline < 3 then fully_contained_keys sh threshold s rest
           else if \<not> Polygon_ok sh parent_polyline then fully_contained_keys sh threshold s rest
           else
             (case contained_children sh s parent_candidate_key parent_polyline
                     (room_description_map s) of
                Inl e \<Rightarrow> Inl e
              | Inr children \<Rightarrow>
                  (case fully_contained_keys sh threshold s rest of
                     Inl e \<Rightarrow> Inl e
                   | Inr others \<Rightarrow>
                       (let total_area = sum_list children
                        in if \<bar>total_area - Polygon_area sh parent_polyline\<bar>
                                < Polygon_area sh parent_polyline * threshold
                           then Inr (parent_candidate_key # others)
                           else Inr others)))))"

text \<open>\<open>House._eliminate_false_rooms(conf)\<close>. Each key of \<open>fully_contained_keys\<close> is a
  key of the dict and is listed once, so no \<open>del\<close> raises.\<close>

definition eliminate_false_rooms :: "shapely \<Rightarrow> parser_config \<Rightarrow> house \<Rightarrow> py_exc + house" where
  "eliminate_false_rooms sh conf s =
     (case fully_contained_keys sh (eliminate_false_rooms_threshold conf) s
             (room_description_map s) of
        Inl e \<Rightarrow> Inl e
      | Inr keys \<Rightarrow>
          Inr (s\<lparr>room_description_map := fold AList.delete keys (room_description_map s)\<rparr>))"


section \<open>Opening resolver (util.line\_contains\_check, House.generate\_wall\_graph)\<close>

definition get_pd :: "real \<Rightarrow> real \<Rightarrow> point \<Rightarrow> real" where
  "get_pd grad intercept p =
     \<bar>- grad * real_of_int (fst p) + real_of_int (snd p) - intercept\<bar> / sqrt (grad\<^sup>2 + 1)"

text \<open>The segment of a wall, from its first to its second Corner.\<close>

definition wall_segment :: "house \<Rightarrow> nat \<Rightarrow> line" where
  "wall_segment s wall = (Corner_pos s (Wall_p1 s wall), Corner_pos s (Wall_p2 s wall))"

text \<open>\<open>line_contains_check(parent, child, pd_margin)\<close> on the positions of the two
  segments' endpoints: \<open>Some pd\<close> for \<open>(True, pd)\<close>, \<open>None\<close> for \<open>(False, None)\<close>. The four
  distances are the expression of \<open>sq_distance\<close>, written out in the source.\<close>

definition line_contains_check :: "line \<Rightarrow> line \<Rightarrow> real \<Rightarrow> real option" where
  "line_contains_check parent child pd_margin =
     (let (pd1, pd2) =
            (if \<bar>fst (snd parent) - fst (fst parent)\<bar> > 0
             then (let parent_grad = real_of_int (snd (snd parent) - snd (fst parent))
                                       / real_of_int (fst (snd parent) - fst (fst parent));
                       parent_intercept = real_of_int (snd (fst parent))
                                            - parent_grad * real_of_int (fst (fst parent))
                   in (get_pd parent_grad parent_intercept (fst child),
                       get_pd parent_grad parent_intercept (snd child)))
             else (real_of_int \<bar>fst (fst child) - fst (fst parent)\<bar>,
                   real_of_int \<bar>fst (snd child) - fst (snd parent)\<bar>))
      in if pd1 > pd_margin then None
         else if pd2 > pd_margin then None
         else
           (let p1_c1_distance = sq_distance (fst parent) (fst child);
                p1_c2_distance = sq_distance (fst parent) (snd child);
                p2_c1_distance = sq_distance (snd parent) (fst child);
                p2_c2_distance = sq_distance (snd parent) (snd child)
            in if p1_c1_distance < p1_c2_distance \<and> p2_c2_distance < p2_c1_distance
               then Some (min pd1 pd2)
               else if p1_c2_distance < p1_c1_distance \<and> p2_c1_distance < p2_c2_distance
               then Some (min pd1 pd2)
               else None))"

definition get_closest_and_furthest :: "point \<Rightarrow> point \<Rightarrow> point \<Rightarrow> point \<times> point" where
  "get_closest_and_furthest target q1 q2 =
     (if sq_distance target q1 < sq_distance target q2 then (q1, q2) else (q2, q1))"

text \<open>A point of the closed segment from \<open>a\<close> to \<open>b\<close>, in integers: it is on the line
  through them, and its projection on the segment falls between the two.\<close>

definition on_segment :: "point \<Rightarrow> point \<Rightarrow> point \<Rightarrow> bool" where
  "on_segment a b q \<longleftrightarrow>
     (fst q - fst a) * (snd b - snd a) = (snd q - snd a) * (fst b - fst a)
     \<and> 0 \<le> (fst q - fst a) * (fst b - fst a) + (snd q - snd a) * (snd b - snd a)
     \<and> (fst q - fst a) * (fst b - fst a) + (snd q - snd a) * (snd b - snd a)
         \<le> (fst b - fst a)\<^sup>2 + (snd b - snd a)\<^sup>2"

text \<open>\<open>generate_hole_id()\<close>: \<open>"hole_" + str(ran.randint(0, RAND_MAX))\<close>.\<close>

definition generate_hole_id :: "house \<Rightarrow> string \<times> house" where
  "generate_hole_id s =
     (''hole_'' @ str_int (ran_draws s (ran_used s)), s\<lparr>ran_used := Suc (ran_used s)\<rparr>)"

text \<open>\<open>Hole(min_x, max_x)\<close>: a new Hole of type \<open>None\<close> with a generated id.\<close>

definition new_hole :: "int \<Rightarrow> int \<Rightarrow> house \<Rightarrow> nat \<times> house" where
  "new_hole lo hi s =
     (let (new_id, s') = generate_hole_id s; h = n_holes s'
      in (h, s'\<lparr>Hole_min_x := (Hole_min_x s')(h := lo),
                 Hole_max_x := (Hole_max_x s')(h := hi),
                 Hole_type := (Hole_type s')(h := None),
                 Hole_id := (Hole_id s')(h := new_id),
                 n_holes := Suc h\<rparr>))"

text \<open>The doors are fresh LineSegment objects, one per opening record: a door is its
  index in \<open>w_doors\<close> together with its two endpoint positions. \<open>wall_door_pairs\<close> lists
  \<open>(pd, door, wall)\<close> for every door, in order, and every wall that contains it.\<close>

definition w_doors :: "datum list \<Rightarrow> (nat \<times> line) list" where
  "w_doors openings = zip [0..<length openings] (map wall_line openings)"

definition wall_door_pairs ::
  "house \<Rightarrow> real \<Rightarrow> (nat \<times> line) list \<Rightarrow> (real \<times> (nat \<times> line) \<times> nat) list" where
  "wall_door_pairs s pd_margin doors =
     concat (map (\<lambda>door.
        concat (map (\<lambda>wall.
           case line_contains_check (wall_segment s wall) (snd door) pd_margin of
             Some pd \<Rightarrow> [(pd, door, wall)]
           | None \<Rightarrow> [])
          (walls s)))
       doors)"

text \<open>The loop \<open>for pd, door, wall in wall_door_pairs\<close> with the list \<open>added_doors\<close>.\<close>

fun add_doors_loop ::
  "(real \<times> (nat \<times> line) \<times> nat) list \<Rightarrow> nat list \<Rightarrow> house \<Rightarrow> house" where
  "add_doors_loop [] added_doors s = s"
| "add_doors_loop ((pd, door, wall) # rest) added_doors s =
     (if fst door \<in> set added_doors then add_doors_loop rest added_doors s
      else
        (let (min_point, max_point) =
               get_closest_and_furthest (Corner_pos s (Wall_p1 s wall))
                 (fst (snd door)) (snd (snd door));
             (new_door, s') =
               new_hole (manhattan_distance_between (Corner_pos s (Wall_p1 s wall)) min_point)
                 (manhattan_distance_between (Corner_pos s (Wall_p1 s wall)) max_point) s
         in add_doors_loop rest (added_doors @ [fst door])
              (s'\<lparr>Wall_holes := (Wall_holes s')(wall := Wall_holes s' wall @ [new_door])\<rparr>)))"

text \<open>The "Add doors" part of \<open>generate_wall_graph\<close>.\<close>

definition add_doors :: "parser_config \<Rightarrow> datum list \<Rightarrow> house \<Rightarrow> house" where
  "add_doors conf openings s =
     add_doors_loop
       (sort_key fst (wall_door_pairs s (max_door_perpendicular_offset conf) (w_doors openings)))
       [] s"

text \<open>The first part of \<open>generate_wall_graph\<close>: a new WallLinkageGraph, a wall per
  record, and the two traces of every wall, stored under the frozenset of their walls.\<close>

fun add_walls :: "datum list \<Rightarrow> house \<Rightarrow> py_exc + house" where
  "add_walls [] s = Inr s"
| "add_walls (wall # rest) s =
     (case add_wall (x_min wall, y_min wall) (x_max wall, y_max wall)
             (left_room_type wall) (right_room_type wall) s of
        Inl e \<Rightarrow> Inl e
      | Inr s' \<Rightarrow> add_walls rest s')"

fun detect_rooms :: "nat list \<Rightarrow> house \<Rightarrow> py_exc + house" where
  "detect_rooms [] s = Inr s"
| "detect_rooms (wall # rest) s =
     (case find_room s (Wall_p1 s wall) wall of
        Inl e \<Rightarrow> Inl e
      | Inr r1 \<Rightarrow>
          (case find_room s (Wall_p2 s wall) wall of
             Inl e \<Rightarrow> Inl e
           | Inr r2 \<Rightarrow>
               detect_rooms rest
                 (s\<lparr>room_description_map :=
                      AList.update (frozenset s r2) r2
                        (AList.update (frozenset s r1) r1 (room_description_map s))\<rparr>)))"

definition generate_wall_graph ::
  "shapely \<Rightarrow> parser_config \<Rightarrow> datum list \<Rightarrow> datum list \<Rightarrow> house \<Rightarrow> py_exc + house" where
  "generate_wall_graph sh conf raw_walls openings s =
     (case add_walls raw_walls
             (s\<lparr>wall_corners := [], tolerance_distance := wall_join_margin conf, walls := []\<rparr>) of
        Inl e \<Rightarrow> Inl e
      | Inr s1 \<Rightarrow>
          (case detect_rooms (walls s1) (s1\<lparr>room_description_map := []\<rparr>) of
             Inl e \<Rightarrow> Inl e
           | Inr s2 \<Rightarrow>
               (case (if eliminate_false_rooms_enabled conf
                      then eliminate_false_rooms sh conf s2 else Inr s2) of
                  Inl e \<Rightarrow> Inl e
                | Inr s3 \<Rightarrow> Inr (add_doors conf openings s3))))"

section \<open>RDR derivation (House.compute\_rdr)\<close>

definition find_adjacent_rooms :: "house \<Rightarrow> nat \<Rightarrow> room_key list" where
  "find_adjacent_rooms s wall =
     map fst (filter (\<lambda>(room_key, rd). wall_in s wall room_key) (room_description_map s))"

text \<open>The edges \<open>compute_rdr\<close> appends for one hole of a wall.\<close>

definition hole_edges :: "house \<Rightarrow> nat \<Rightarrow> nat \<Rightarrow> (room_key \<times> nat \<times> room_key option) list" where
  "hole_edges s wall hole =
     (if Hole_type s hole = Some ''door''
      then (case find_adjacent_rooms s wall of
              [] \<Rightarrow> []
            | [a] \<Rightarrow> [(a, hole, None)]
            | [a, b] \<Rightarrow> [(a, hole, Some b), (b, hole, Some a)]
            | a # b # c # more_rooms \<Rightarrow> [])
      else [])"

definition compute_rdr :: "house \<Rightarrow> house" where
  "compute_rdr s =
     s\<lparr>rdr := rdr s @ concat (map (\<lambda>wall. concat (map (hole_edges s wall) (Wall_holes s wall)))
                          (walls s))\<rparr>"


section \<open>Comparing two runs\<close>

text \<open>A state without its hole identifiers and without the state of \<open>id_gen.ran\<close>: two
  states with the same image differ at most in these.\<close>

definition forget_ids :: "house \<Rightarrow> house" where
  "forget_ids s = s\<lparr>Hole_id := (\<lambda>h. []), ran_draws := (\<lambda>k. 0), ran_used := 0\<rparr>"

section \<open>Concrete inputs\<close>

text \<open>The state of a new \<open>House()\<close>, and a configuration with the tolerances of the
  examples below.\<close>

definition new_house :: house where
  "new_house =
     \<lparr>file_name = ''plan.txt'',
      Corner_pos = (\<lambda>c. (0, 0)), Corner_adj = (\<lambda>c. []), n_corners = 0,
      Wall_p1 = (\<lambda>w. 0), Wall_p2 = (\<lambda>w. 0), Wall_holes = (\<lambda>w. []),
      Wall_left_room_type = (\<lambda>w. None), Wall_right_room_type = (\<lambda>w. None), n_walls = 0,
      Hole_min_x = (\<lambda>h. 0), Hole_max_x = (\<lambda>h. 0), Hole_type = (\<lambda>h. None),
      Hole_id = (\<lambda>h. []), n_holes = 0,
      wall_corners = [], tolerance_distance = 5, walls = [],
      room_description_map = [], rdr = [],
      ran_draws = (\<lambda>k. 0), ran_used = 0\<rparr>"

definition example_conf :: parser_config where
  "example_conf =
     \<lparr>wall_join_margin = 10, split_walls_max_iter = 100,
      straighten_walls_cutoff_gradient = 1 / 10, straighten_walls_max_iter = 100,
      eliminate_false_rooms_enabled = True, eliminate_false_rooms_threshold = 1 / 10,
      max_door_perpendicular_offset = 5\<rparr>"

text \<open>A T-junction with a gap of 8: a horizontal wall, and a vertical wall that ends 8
  above a point strictly inside it.\<close>

definition t_bar :: datum where
  "t_bar = \<lparr>x_min = 0, y_min = 0, x_max = 100, y_max = 0, category = ''wall'',
     left_room_type = None, right_room_type = None, dump_1 = None, dump_2 = None\<rparr>"

definition t_stem :: datum where
  "t_stem = \<lparr>x_min = 50, y_min = 8, x_max = 50, y_max = 100, category = ''wall'',
     left_room_type = None, right_room_type = None, dump_1 = None, dump_2 = None\<rparr>"

text \<open>Two rooms side by side, 100 wide and 100 high, as \<open>generate_wall_graph\<close> leaves
  them: Corners 0 to 5 at \<open>(0, 0)\<close>, \<open>(100, 0)\<close>, \<open>(200, 0)\<close>, \<open>(200, 100)\<close>, \<open>(101, 100)\<close>
  and \<open>(0, 100)\<close>, walls 0 to 5 around the outside and wall 6 between the rooms, from
  Corner 1 to Corner 4, leaning by one pixel. The false outer room has been eliminated;
  the left room is traced \<open>[6, 4, 5, 0]\<close>, the right one \<open>[6, 1, 2, 3]\<close>. Wall 6 carries a
  door (hole 0) and wall 0 another (hole 1).\<close>

definition leaning_graph :: house where
  "leaning_graph = new_house
     \<lparr>Corner_pos := (\<lambda>c. if c = 1 then (100, 0) else if c = 2 then (200, 0)
                         else if c = 3 then (200, 100) else if c = 4 then (101, 100)
                         else if c = 5 then (0, 100) else (0, 0)),
      Corner_adj := (\<lambda>c. if c = 0 then [0, 5] else if c = 1 then [0, 1, 6]
                         else if c = 2 then [1, 2] else if c = 3 then [2, 3]
                         else if c = 4 then [3, 4, 6] else if c = 5 then [4, 5] else []),
      n_corners := 6,
      Wall_p1 := (\<lambda>w. if w = 6 then 1 else if w < 6 then w else 0),
      Wall_p2 := (\<lambda>w. if w = 6 then 4 else if w < 5 then w + 1 else 0),
      Wall_holes := (\<lambda>w. if w = 6 then [0] else if w = 0 then [1] else []),
      n_walls := 7,
      Hole_min_x := (\<lambda>h. if h = 0 then 30 else if h = 1 then 20 else 0),
      Hole_max_x := (\<lambda>h. if h = 0 then 60 else if h = 1 then 50 else 0),
      Hole_type := (\<lambda>h. if h < 2 then Some ''door'' else None),
      Hole_id := (\<lambda>h. if h = 0 then ''hole_11'' else if h = 1 then ''hole_12'' else []),
      n_holes := 2,
      wall_corners := [(''0_0'', 0), (''100_0'', 1), (''200_0'', 2), (''200_100'', 3),
                       (''101_100'', 4), (''0_100'', 5)],
      tolerance_distance := 10,
      walls := [0, 1, 2, 3, 4, 5, 6]\<rparr>"

definition left_room :: room_key where
  "left_room = frozenset leaning_graph [6, 4, 5, 0]"

definition right_room :: room_key where
  "right_room = frozenset leaning_graph [6, 1, 2, 3]"

definition leaning_house :: house where
  "leaning_house = leaning_graph
     \<lparr>room_description_map := [(left_room, [6, 4, 5, 0]), (right_room, [6, 1, 2, 3])]\<rparr>"

text \<open>The same house after the straightener's one correction: Corner 1, the top vertex
  of wall 6, has moved from \<open>(100, 0)\<close> to \<open>(101, 0)\<close> and has been re-keyed.\<close>

definition upright_house :: house where
  "upright_house = leaning_house
     \<lparr>Corner_pos := (Corner_pos leaning_house)(1 := (101, 0)),
      wall_corners := [(''0_0'', 0), (''200_0'', 2), (''200_100'', 3),
                       (''101_100'', 4), (''0_100'', 5), (''101_0'', 1)]\<rparr>"

text \<open>Two walls from the Corner at \<open>(0, 0)\<close>: wall 0 to \<open>(1, 100)\<close>, nearly vertical, and
  wall 1 to \<open>(1, 0)\<close>; the graph \<open>add_wall\<close> builds from the two records with a tolerance
  of one half.\<close>

definition collapse_house :: house where
  "collapse_house = new_house
     \<lparr>Corner_pos := (\<lambda>c. if c = 0 then (0, 0) else if c = 1 then (1, 100) else (1, 0)),
      Corner_adj := (\<lambda>c. if c = 0 then [0, 1] else if c = 1 then [0] else [1]),
      n_corners := 3,
      Wall_p2 := (\<lambda>w. if w = 0 then 1 else 2),
      n_walls := 2,
      wall_corners := [(''0_0'', 0), (''1_100'', 1), (''1_0'', 2)],
      tolerance_distance := 1 / 2,
      walls := [0, 1]\<rparr>"

text \<open>The same graph after the straightener's first correction: Corner 0 has moved to
  \<open>(1, 0)\<close>, onto Corner 2, and has taken over its key.\<close>

definition collapsed_house :: house where
  "collapsed_house = collapse_house
     \<lparr>Corner_pos := (Corner_pos collapse_house)(0 := (1, 0)),
      wall_corners := [(''1_100'', 1), (''1_0'', 0)]\<rparr>"

text \<open>One nearly vertical wall from \<open>(0, 0)\<close> to \<open>(1, 100)\<close>, and the same graph with
  Corner 0 moved to \<open>(1, 0)\<close> and re-keyed.\<close>

definition tilted_house :: house where
  "tilted_house = new_house
     \<lparr>Corner_pos := (\<lambda>c. if c = 0 then (0, 0) else (1, 100)),
      Corner_adj := (\<lambda>c. [0]),
      n_corners := 2,
      Wall_p2 := (\<lambda>w. 1),
      n_walls := 1,
      wall_corners := [(''0_0'', 0), (''1_100'', 1)],
      tolerance_distance := 1 / 2,
      walls := [0]\<rparr>"

definition straightened_house :: house where
  "straightened_house = tilted_house
     \<lparr>Corner_pos := (Corner_pos tilted_house)(0 := (1, 0)),
      wall_corners := [(''1_100'', 1), (''1_0'', 0)]\<rparr>"

text \<open>One horizontal wall from \<open>(0, 0)\<close> to \<open>(10, 0)\<close>, and two opening records near it:
  a door from \<open>(2, 0)\<close> to \<open>(13, 0)\<close>, which runs past the wall's end, and a tilted door
  from \<open>(0, 4)\<close> to \<open>(3, 3)\<close>.\<close>

definition door_house :: house where
  "door_house = new_house
     \<lparr>Corner_pos := (\<lambda>c. if c = 0 then (0, 0) else (10, 0)),
      Corner_adj := (\<lambda>c. [0]),
      n_corners := 2,
      Wall_p2 := (\<lambda>w. 1),
      n_walls := 1,
      wall_corners := [(''0_0'', 0), (''10_0'', 1)],
      walls := [0]\<rparr>"

definition long_door :: datum where
  "long_door = \<lparr>x_min = 2, y_min = 0, x_max = 13, y_max = 0, category = ''door'',
     left_room_type = None, right_room_type = None, dump_1 = Some ''1'', dump_2 = Some ''1''\<rparr>"

definition tilted_door :: datum where
  "tilted_door = \<lparr>x_min = 0, y_min = 4, x_max = 3, y_max = 3, category = ''door'',
     left_room_type = None, right_room_type = None, dump_1 = Some ''1'', dump_2 = Some ''1''\<rparr>"

definition inner_door :: datum where
  "inner_door = \<lparr>x_min = 2, y_min = 0, x_max = 6, y_max = 0, category = ''door'',
     left_room_type = None, right_room_type = None, dump_1 = Some ''1'', dump_2 = Some ''1''\<rparr>"

text \<open>A door parallel to that wall, one pixel off it.\<close>

definition offset_door :: datum where
  "offset_door = \<lparr>x_min = 2, y_min = 1, x_max = 6, y_max = 1, category = ''door'',
     left_room_type = None, right_room_type = None, dump_1 = Some ''1'', dump_2 = Some ''1''\<rparr>"

text \<open>A wall record with no room types, and the plan of two rooms side by side, 10
  wide and 10 high each, with the graph \<open>generate_wall_graph\<close> builds from it at a join
  margin of 10: Corners 0 to 5 at \<open>(0, 0)\<close>, \<open>(10, 0)\<close>, \<open>(20, 0)\<close>, \<open>(20, 10)\<close>,
  \<open>(10, 10)\<close> and \<open>(0, 10)\<close>, walls 0 to 5 around the outside, wall 6 between the rooms.\<close>

definition wall_record :: "int \<Rightarrow> int \<Rightarrow> int \<Rightarrow> int \<Rightarrow> datum" where
  "wall_record a b c d = \<lparr>x_min = a, y_min = b, x_max = c, y_max = d, category = ''wall'',
     left_room_type = None, right_room_type = None, dump_1 = None, dump_2 = None\<rparr>"

definition two_room_walls :: "datum list" where
  "two_room_walls =
     [wall_record 0 0 10 0, wall_record 10 0 20 0, wall_record 20 0 20 10,
      wall_record 20 10 10 10, wall_record 10 10 0 10, wall_record 0 10 0 0,
      wall_record 10 0 10 10]"

definition two_room_house :: house where
  "two_room_house = new_house
     \<lparr>Corner_pos := (\<lambda>c. if c = 1 then (10, 0) else if c = 2 then (20, 0)
                         else if c = 3 then (20, 10) else if c = 4 then (10, 10)
                         else if c = 5 then (0, 10) else (0, 0)),
      Corner_adj := (\<lambda>c. if c = 0 then [0, 5] else if c = 1 then [0, 1, 6]
                         else if c = 2 then [1, 2] else if c = 3 then [2, 3]
                         else if c = 4 then [3, 4, 6] else if c = 5 then [4, 5] else []),
      n_corners := 6,
      Wall_p1 := (\<lambda>w. if w = 6 then 1 else if w < 6 then w else 0),
      Wall_p2 := (\<lambda>w. if w = 6 then 4 else if w < 5 then w + 1 else 0),
      n_walls := 7,
      wall_corners := [(''0_0'', 0), (''10_0'', 1), (''20_0'', 2), (''20_10'', 3),
                       (''10_10'', 4), (''0_10'', 5)],
      tolerance_distance := 10,
      walls := [0, 1, 2, 3, 4, 5, 6]\<rparr>"


section \<open>The wall splitter and the configured gap\<close>

lemma find_connections_t_junction:
  "find_connections (wall_line t_bar) (wall_line t_stem) g = ((-1, -1), (0, 0))"
  "find_connections (wall_line t_stem) (wall_line t_bar) g = ((-1, -1), (0, 0))"
  by (simp_all add: find_connections_def findConnections_def point_connection_def
      pointDistance_def endpoint_def wall_line_def t_bar_def t_stem_def lineRange_def
      calcLineDirection_def coord_def)

lemma outer_loop_t_junction:
  "outer_loop g [t_bar, t_stem] [0..<length [t_bar, t_stem]] = None"
proof -
  have ne: "t_bar \<noteq> t_stem" "t_stem \<noteq> t_bar"
    by (simp_all add: t_bar_def t_stem_def)
  have m: "is_manhattan t_bar" "is_manhattan t_stem"
    by (simp_all add: is_manhattan_def t_bar_def t_stem_def)
  show ?thesis
    using ne m by (simp add: upt_rec split_pair_def find_connections_t_junction)
qed

text \<open>
  C3. The claim: for every configured gap, \<open>split_source_walls\<close> splits a manhattan
  pair exactly when one wall's free endpoint lies within that gap of a point strictly
  inside the other. On the code, \<open>find_connections\<close> passes the literal 5 to
  \<open>_findConnections\<close> whatever \<open>gap\<close> it is given. With \<open>wall_join_margin = 10\<close> and the
  T-junction of gap 8, the connection test at gap 10 answers \<open>[2, 0]\<close> at the point
  \<open>(50, 0)\<close> (break the first wall there), and \<open>split_source_walls\<close> leaves both walls
  whole.
\<close>

theorem split_source_walls_gap_fixed_at_5:
  "find_connections l1 l2 gap = find_connections l1 l2 5
   \<and> findConnections (wall_line t_bar) (wall_line t_stem) (wall_join_margin example_conf)
       = ((2, 0), (50, 0))
   \<and> split_source_walls example_conf [t_bar, t_stem] = [t_bar, t_stem]"
proof -
  have a: "find_connections l1 l2 gap = find_connections l1 l2 5"
    by (simp add: find_connections_def)
  have b: "findConnections (wall_line t_bar) (wall_line t_stem) (wall_join_margin example_conf)
             = ((2, 0), (50, 0))"
    by (simp add: findConnections_def point_connection_def pointDistance_def endpoint_def
        wall_line_def t_bar_def t_stem_def lineRange_def calcLineDirection_def coord_def
        example_conf_def)
  have c: "split_source_walls example_conf [t_bar, t_stem] = [t_bar, t_stem]"
    using outer_loop_t_junction [of 10]
    by (simp add: split_source_walls_def example_conf_def split_loop.simps del: list.size)
  from a b c show ?thesis by blast
qed

section \<open>RDR derivation\<close>

lemma upto_two_cases:
  obtains "xs = []" | a where "xs = [a]" | a b where "xs = [a, b]"
  | a b c r where "xs = a # b # c # r"
proof (cases xs)
  case Nil
  then show ?thesis using that by simp
next
  case (Cons a ys)
  then show ?thesis
  proof (cases ys)
    case Nil
    with Cons show ?thesis using that by simp
  next
    case (Cons b zs)
    with \<open>xs = a # ys\<close> show ?thesis using that by (cases zs) auto
  qed
qed

lemma hole_edges_mid: "e \<in> set (hole_edges s w h) \<Longrightarrow> fst (snd e) = h"
proof -
  assume e: "e \<in> set (hole_edges s w h)"
  consider "find_adjacent_rooms s w = []" | a where "find_adjacent_rooms s w = [a]"
    | a b where "find_adjacent_rooms s w = [a, b]"
    | a b c r where "find_adjacent_rooms s w = a # b # c # r"
    by (rule upto_two_cases)
  then show ?thesis
    using e unfolding hole_edges_def
    by cases (cases "Hole_type s h = Some ''door''"; simp only: if_True if_False list.case; auto)+
qed

lemma filter_hole_edges:
  "filter (\<lambda>e. fst (snd e) = hole) (hole_edges s w h) = (if h = hole then hole_edges s w h else [])"
  by (auto simp: filter_empty_conv filter_id_conv dest: hole_edges_mid)

lemma concat_pick:
  "distinct hs \<Longrightarrow>
   concat (map (\<lambda>h. if h = hole then E else []) hs) = (if hole \<in> set hs then E else [])"
  by (induction hs) auto

lemma filter_wall_edges:
  assumes "distinct (Wall_holes s w)"
  shows "filter (\<lambda>e. fst (snd e) = hole) (concat (map (hole_edges s w) (Wall_holes s w)))
         = (if hole \<in> set (Wall_holes s w) then hole_edges s w hole else [])"
proof -
  have "filter (\<lambda>e. fst (snd e) = hole) (concat (map (hole_edges s w) (Wall_holes s w)))
        = concat (map (\<lambda>h. if h = hole then hole_edges s w hole else []) (Wall_holes s w))"
    by (simp add: filter_concat comp_def filter_hole_edges cong: if_cong)
  then show ?thesis using assms by (simp add: concat_pick)
qed

lemma concat_pick_wall:
  "distinct (concat (map H ws)) \<Longrightarrow> wall \<in> set ws \<Longrightarrow> hole \<in> set (H wall) \<Longrightarrow>
   concat (map (\<lambda>w. if hole \<in> set (H w) then E w else []) ws) = E wall"
proof (induction ws)
  case Nil
  then show ?case by simp
next
  case (Cons w ws)
  show ?case
  proof (cases "hole \<in> set (H w)")
    case True
    with Cons.prems(1) have "\<forall>w' \<in> set ws. hole \<notin> set (H w')" by auto
    then have rest: "concat (map (\<lambda>w. if hole \<in> set (H w) then E w else []) ws) = []"
      by (induction ws) auto
    from True Cons.prems have "w = wall" by auto
    with True rest show ?thesis by simp
  next
    case False
    with Cons.prems have "wall \<in> set ws" by auto
    with Cons False show ?thesis by simp
  qed
qed

lemma rdr_edges_of_hole:
  assumes "rdr s = []" and d: "distinct (concat (map (Wall_holes s) (walls s)))"
    and w: "wall \<in> set (walls s)" and h: "hole \<in> set (Wall_holes s wall)"
  shows "filter (\<lambda>e. fst (snd e) = hole) (rdr (compute_rdr s)) = hole_edges s wall hole"
proof -
  have dw: "distinct (Wall_holes s w)" if "w \<in> set (walls s)" for w
    using d that by (induction "walls s" arbitrary: ) (auto simp: distinct_concat_iff)
  have "filter (\<lambda>e. fst (snd e) = hole) (rdr (compute_rdr s))
        = concat (map (\<lambda>w. filter (\<lambda>e. fst (snd e) = hole)
              (concat (map (hole_edges s w) (Wall_holes s w)))) (walls s))"
    using assms(1) by (simp add: compute_rdr_def filter_concat comp_def)
  also have "\<dots> = concat (map (\<lambda>w. if hole \<in> set (Wall_holes s w) then hole_edges s w hole else [])
                      (walls s))"
    using dw by (intro arg_cong [where f = concat] map_cong) (simp_all add: filter_wall_edges)
  also have "\<dots> = hole_edges s wall hole"
    using d w h by (rule concat_pick_wall)
  finally show ?thesis .
qed


lemma set_find_adjacent_rooms:
  "set (find_adjacent_rooms s wall)
     = {k \<in> fst ` set (room_description_map s). wall_in s wall k}"
  by (auto simp: find_adjacent_rooms_def)

lemma distinct_find_adjacent_rooms:
  "distinct (map fst (room_description_map s)) \<Longrightarrow> distinct (find_adjacent_rooms s wall)"
  by (simp add: find_adjacent_rooms_def distinct_map_filter)

lemma distinct_pair_shape:
  assumes "distinct xs" and "set xs = {a, b}" and "a \<noteq> b"
  shows "xs = [a, b] \<or> xs = [b, a]"
proof -
  from assms have "length xs = 2"
    by (metis card_2_iff distinct_card)
  then obtain x y where xs: "xs = [x, y]"
    by (auto simp: length_Suc_conv numeral_2_eq_2)
  with assms show ?thesis by (auto simp: doubleton_eq_iff)
qed

lemma distinct_single_shape:
  assumes "distinct xs" and "set xs = {a}"
  shows "xs = [a]"
proof -
  from assms have "length xs = 1"
    by (metis One_nat_def card.empty card_insert_disjoint distinct_card empty_iff finite.emptyI)
  then obtain x where "xs = [x]"
    by (auto simp: length_Suc_conv)
  with assms show ?thesis by auto
qed

text \<open>
  C7. After \<open>compute_rdr\<close> on a house whose RDR list is still empty, the edges that
  reference a door hole are determined by the room keys in which the code finds its
  host wall, that is the keys that hold the wall under the string it has when
  \<open>compute_rdr\<close> runs: exactly two such keys \<open>A\<close> and \<open>B\<close> give the two edges
  \<open>(A, hole, B)\<close> and \<open>(B, hole, A)\<close> and no other edge with that hole; exactly one key
  \<open>A\<close> gives \<open>(A, hole, None)\<close> alone; no key gives no edge. A Hole object sits in one
  wall's list, once, and the dict's keys are distinct. A key that holds the wall under
  an older string does not count: see the failing run below.
\<close>

theorem compute_rdr_door_edges:
  assumes "rdr s = []"
    and "distinct (map fst (room_description_map s))"
    and "distinct (concat (map (Wall_holes s) (walls s)))"
    and "wall \<in> set (walls s)" and "hole \<in> set (Wall_holes s wall)"
    and "Hole_type s hole = Some ''door''"
  shows "({k \<in> fst ` set (room_description_map s). wall_in s wall k} = {A, B} \<and> A \<noteq> B \<longrightarrow>
            filter (\<lambda>e. fst (snd e) = hole) (rdr (compute_rdr s))
              = [(A, hole, Some B), (B, hole, Some A)]
          \<or> filter (\<lambda>e. fst (snd e) = hole) (rdr (compute_rdr s))
              = [(B, hole, Some A), (A, hole, Some B)])
       \<and> ({k \<in> fst ` set (room_description_map s). wall_in s wall k} = {A} \<longrightarrow>
            filter (\<lambda>e. fst (snd e) = hole) (rdr (compute_rdr s)) = [(A, hole, None)])
       \<and> ({k \<in> fst ` set (room_description_map s). wall_in s wall k} = {} \<longrightarrow>
            filter (\<lambda>e. fst (snd e) = hole) (rdr (compute_rdr s)) = [])"
proof -
  let ?adj = "find_adjacent_rooms s wall"
  have edges: "filter (\<lambda>e. fst (snd e) = hole) (rdr (compute_rdr s)) = hole_edges s wall hole"
    using assms(1,3,4,5) by (rule rdr_edges_of_hole)
  have d: "distinct ?adj"
    using assms(2) by (rule distinct_find_adjacent_rooms)
  have two: "hole_edges s wall hole = [(a, hole, Some b), (b, hole, Some a)]"
    if "?adj = [a, b]" for a b
    unfolding hole_edges_def using that assms(6) by (simp only: list.case, simp)
  have one: "hole_edges s wall hole = [(a, hole, None)]" if "?adj = [a]" for a
    unfolding hole_edges_def using that assms(6) by (simp only: list.case, simp)
  have none: "hole_edges s wall hole = []" if "?adj = []"
    unfolding hole_edges_def using that assms(6) by (simp only: list.case, simp)
  show ?thesis
  proof (intro conjI impI)
    assume "{k \<in> fst ` set (room_description_map s). wall_in s wall k} = {A, B} \<and> A \<noteq> B"
    then have "set ?adj = {A, B}" "A \<noteq> B"
      by (simp_all add: set_find_adjacent_rooms)
    with d have "?adj = [A, B] \<or> ?adj = [B, A]"
      by (rule distinct_pair_shape)
    then show "filter (\<lambda>e. fst (snd e) = hole) (rdr (compute_rdr s))
              = [(A, hole, Some B), (B, hole, Some A)]
          \<or> filter (\<lambda>e. fst (snd e) = hole) (rdr (compute_rdr s))
              = [(B, hole, Some A), (A, hole, Some B)]"
      using two edges by auto
  next
    assume "{k \<in> fst ` set (room_description_map s). wall_in s wall k} = {A}"
    then have "set ?adj = {A}" by (simp add: set_find_adjacent_rooms)
    with d have "?adj = [A]" by (rule distinct_single_shape)
    then show "filter (\<lambda>e. fst (snd e) = hole) (rdr (compute_rdr s)) = [(A, hole, None)]"
      using one edges by simp
  next
    assume "{k \<in> fst ` set (room_description_map s). wall_in s wall k} = {}"
    then have "set ?adj = {}" by (simp add: set_find_adjacent_rooms)
    then have "?adj = []" by simp
    then show "filter (\<lambda>e. fst (snd e) = hole) (rdr (compute_rdr s)) = []"
      using none edges by simp
  qed
qed

section \<open>Wall straightener\<close>

lemma move_corner_frame:
  "move_corner c p s = (r, s') \<Longrightarrow>
   s' = s\<lparr>Corner_pos := Corner_pos s', wall_corners := wall_corners s'\<rparr>"
  by (auto simp: move_corner_def Let_def split: if_splits)

lemma correction_step_frame:
  assumes "correction_step cutoff s = (r, s')"
  shows "s' = s\<lparr>Corner_pos := Corner_pos s', wall_corners := wall_corners s'\<rparr>"
proof (cases "find_inclined_wall s cutoff (walls s)")
  case (Inl e)
  with assms show ?thesis by (simp add: correction_step_def)
next
  case (Inr found)
  show ?thesis
  proof (cases found)
    case None
    with Inr assms show ?thesis by (simp add: correction_step_def)
  next
    case (Some w)
    obtain m p where cm: "choose_move s cutoff w = (m, p)" by (cases "choose_move s cutoff w")
    obtain r' t where mc: "move_corner m p s = (r', t)" by (cases "move_corner m p s")
    from move_corner_frame [OF mc]
    have "t = s\<lparr>Corner_pos := Corner_pos t, wall_corners := wall_corners t\<rparr>" .
    moreover from assms Inr Some cm mc have "s' = s \<or> s' = t"
      by (auto simp: correction_step_def split: if_splits option.splits)
    ultimately show ?thesis by auto
  qed
qed

lemma straighten_loop_frame:
  "straighten_loop cutoff m i s = (r, s') \<Longrightarrow>
   s' = s\<lparr>Corner_pos := Corner_pos s', wall_corners := wall_corners s'\<rparr>"
proof (induction cutoff m i s rule: straighten_loop.induct)
  case (1 cutoff m i s)
  show ?case
  proof (cases "i < m")
    case False
    with "1.prems" show ?thesis by (simp add: straighten_loop.simps)
  next
    case True
    obtain st t where cs: "correction_step cutoff s = (st, t)"
      by (cases "correction_step cutoff s")
    note f = correction_step_frame [OF cs]
    show ?thesis
    proof (cases st)
      case Break
      with True cs "1.prems" have "s' = t" by (simp add: straighten_loop.simps)
      with f show ?thesis by simp
    next
      case (Raise e)
      with True cs "1.prems" have "s' = t" by (simp add: straighten_loop.simps)
      with f show ?thesis by simp
    next
      case Continue
      with True cs "1.prems" have "straighten_loop cutoff m (i + 1) t = (r, s')"
        by (simp add: straighten_loop.simps)
      from "1.IH" [OF True cs [symmetric] Continue this]
      have "s' = t\<lparr>Corner_pos := Corner_pos s', wall_corners := wall_corners s'\<rparr>" .
      then have "s' = (s\<lparr>Corner_pos := Corner_pos t, wall_corners := wall_corners t\<rparr>)
                         \<lparr>Corner_pos := Corner_pos s', wall_corners := wall_corners s'\<rparr>"
        by (subst (asm) f)
      then show ?thesis by simp
    qed
  qed
qed


lemma correction_step_file_name:
  "correction_step cutoff s = (r, s') \<Longrightarrow> file_name s' = file_name s"
  by (drule correction_step_frame) (metis house.select_convs(1) house.surjective house.update_convs(2,16))

lemma straighten_loop_failure:
  "straighten_loop c m i s = (Some err, s') \<longleftrightarrow>
     (\<exists>k e t. i + int k < m \<and> corrections c k s = Some t
        \<and> correction_step c t = (Raise e, s')
        \<and> err = StraightenWallsFailed (file_name s) (i + int k) e)"
proof (induction c m i s rule: straighten_loop.induct)
  case (1 c m i s)
  show ?case
  proof (cases "i < m")
    case False
    then show ?thesis by (auto simp: straighten_loop.simps)
  next
    case True
    obtain st t where cs: "correction_step c s = (st, t)"
      by (cases "correction_step c s")
    note fn = correction_step_file_name [OF cs]
    have zero: "(\<exists>k e u. i + int k < m \<and> corrections c k s = Some u
        \<and> correction_step c u = (Raise e, s')
        \<and> err = StraightenWallsFailed (file_name s) (i + int k) e)
      \<longleftrightarrow> (\<exists>e. correction_step c s = (Raise e, s')
              \<and> err = StraightenWallsFailed (file_name s) i e)"
      if "st \<noteq> Continue"
    proof -
      have "corrections c (Suc k) s = None" for k
        using cs that by (cases st) simp_all
      then have "corrections c k s = Some u \<longleftrightarrow> k = 0 \<and> u = s" for k u
        by (cases k) auto
      with True show ?thesis by auto
    qed
    show ?thesis
    proof (cases st)
      case Break
      with True cs zero show ?thesis by (simp add: straighten_loop.simps)
    next
      case (Raise e0)
      with True cs zero fn show ?thesis by (auto simp: straighten_loop.simps)
    next
      case Continue
      have shift: "(\<exists>k e u. i + int k < m \<and> corrections c k s = Some u
          \<and> correction_step c u = (Raise e, s')
          \<and> err = StraightenWallsFailed (file_name s) (i + int k) e)
        \<longleftrightarrow> (\<exists>k e u. i + 1 + int k < m \<and> corrections c k t = Some u
          \<and> correction_step c u = (Raise e, s')
          \<and> err = StraightenWallsFailed (file_name t) (i + 1 + int k) e)"
        (is "?L \<longleftrightarrow> ?R")
      proof
        assume ?L
        then obtain k e u where k: "i + int k < m" "corrections c k s = Some u"
          "correction_step c u = (Raise e, s')"
          "err = StraightenWallsFailed (file_name s) (i + int k) e" by blast
        from k(2,3) cs Continue obtain k' where k': "k = Suc k'"
          by (cases k) auto
        with k cs Continue fn
        have "i + 1 + int k' < m \<and> corrections c k' t = Some u
          \<and> correction_step c u = (Raise e, s')
          \<and> err = StraightenWallsFailed (file_name t) (i + 1 + int k') e"
          by (simp add: algebra_simps)
        then show ?R by blast
      next
        assume ?R
        then obtain k e u where k: "i + 1 + int k < m" "corrections c k t = Some u"
          "correction_step c u = (Raise e, s')"
          "err = StraightenWallsFailed (file_name t) (i + 1 + int k) e" by blast
        with cs Continue fn
        have "i + int (Suc k) < m \<and> corrections c (Suc k) s = Some u
          \<and> correction_step c u = (Raise e, s')
          \<and> err = StraightenWallsFailed (file_name s) (i + int (Suc k)) e"
          by (simp add: algebra_simps)
        then show ?L by blast
      qed
      from True cs Continue
      have "straighten_loop c m i s = straighten_loop c m (i + 1) t"
        by (simp add: straighten_loop.simps)
      with "1.IH" [OF True cs [symmetric] Continue] shift show ?thesis by simp
    qed
  qed
qed

text \<open>
  C5. \<open>straighten_walls\<close> raises exactly when, after some number \<open>k\<close> of corrections
  below the iteration cap, the next run of the \<open>try\<close> body raises an exception \<open>e\<close>; what
  it raises then is \<open>StraightenWallsFailed\<close> with the house's file name, the iteration
  count \<open>k\<close> and \<open>e\<close> as its cause. The error is the function's result: nothing in it
  catches or logs it.
\<close>

theorem straighten_walls_failure_wrapped:
  "straighten_walls conf s = (Some err, s') \<longleftrightarrow>
     (\<exists>k e t. int k < straighten_walls_max_iter conf
        \<and> corrections (straighten_walls_cutoff_gradient conf) k s = Some t
        \<and> correction_step (straighten_walls_cutoff_gradient conf) t = (Raise e, s')
        \<and> err = StraightenWallsFailed (file_name s) (int k) e)"
  using straighten_loop_failure [of "straighten_walls_cutoff_gradient conf"
      "straighten_walls_max_iter conf" 0 s err s']
  by (simp add: straighten_walls_def)

text \<open>
  C10. Whether it returns or raises, \<open>straighten_walls\<close> writes at most the Corner
  positions and the corner index: the wall list, every wall's two endpoints, every
  Corner's adjacency list, every wall's holes, every Hole, and the room map, with each
  key as it was stored and each wall list, are unchanged. What \<open>wall in room_key\<close>
  answers is not among them: it is computed from the positions, and the failing run
  below shows it change.
\<close>

theorem straighten_walls_frame:
  "(let s' = snd (straighten_walls conf s)
    in s' = s\<lparr>Corner_pos := Corner_pos s', wall_corners := wall_corners s'\<rparr>
     \<and> walls s' = walls s \<and> Wall_p1 s' = Wall_p1 s \<and> Wall_p2 s' = Wall_p2 s
     \<and> Corner_adj s' = Corner_adj s \<and> Wall_holes s' = Wall_holes s
     \<and> Hole_min_x s' = Hole_min_x s \<and> Hole_max_x s' = Hole_max_x s
     \<and> Hole_type s' = Hole_type s \<and> Hole_id s' = Hole_id s
     \<and> room_description_map s' = room_description_map s)"
proof -
  obtain r s' where run: "straighten_walls conf s = (r, s')"
    by (cases "straighten_walls conf s")
  then have f: "s' = s\<lparr>Corner_pos := Corner_pos s', wall_corners := wall_corners s'\<rparr>"
    unfolding straighten_walls_def by (rule straighten_loop_frame)
  have "walls s' = walls s" "Wall_p1 s' = Wall_p1 s" "Wall_p2 s' = Wall_p2 s"
    "Corner_adj s' = Corner_adj s" "Wall_holes s' = Wall_holes s"
    "Hole_min_x s' = Hole_min_x s" "Hole_max_x s' = Hole_max_x s"
    "Hole_type s' = Hole_type s" "Hole_id s' = Hole_id s"
    "room_description_map s' = room_description_map s"
    by (subst f, simp)+
  with f run show ?thesis by (simp add: Let_def)
qed




lemma less_sqrt_iff: "0 \<le> c \<Longrightarrow> c < sqrt d \<longleftrightarrow> c\<^sup>2 < d"
  by (metis abs_of_nonneg real_sqrt_abs real_sqrt_less_iff)

lemma sqrt_less_iff: "0 \<le> c \<Longrightarrow> sqrt d < c \<longleftrightarrow> d < c\<^sup>2"
  by (metis abs_of_nonneg real_sqrt_abs real_sqrt_less_iff)

lemma le_sqrt_iff: "0 \<le> c \<Longrightarrow> c \<le> sqrt d \<longleftrightarrow> c\<^sup>2 \<le> d"
  by (metis abs_of_nonneg real_sqrt_abs real_sqrt_le_iff)

lemma sqrt_le_iff: "0 \<le> c \<Longrightarrow> sqrt d \<le> c \<longleftrightarrow> d \<le> c\<^sup>2"
  by (metis abs_of_nonneg real_sqrt_abs real_sqrt_le_iff)

lemmas sqrt_cmp = less_sqrt_iff sqrt_less_iff le_sqrt_iff sqrt_le_iff

lemma corner_keys:
  "corner_key (0, 0) = ''0_0''" "corner_key (1, 100) = ''1_100''" "corner_key (1, 0) = ''1_0''"
  by (simp_all add: corner_key_def str_int_def str_nat.simps)

lemma collapse_find: "find_inclined_wall collapse_house (1 / 10) (walls collapse_house) = Inr (Some 0)"
  by (simp add: collapse_house_def new_house_def sq_distance_def x_slope_def y_slope_def sqrt_cmp Let_def)

lemma collapse_step:
  "correction_step (1 / 10) collapse_house = (Continue, collapsed_house)"
  by (simp add: correction_step_def collapse_find choose_move_def move_corner_def Let_def
      collapsed_house_def corner_keys)
     (simp add: collapse_house_def new_house_def sq_distance_def x_slope_def y_slope_def sqrt_cmp corner_keys)

lemma collapsed_step:
  "correction_step (1 / 10) collapsed_house = (Raise ZeroDivisionError, collapsed_house)"
  by (simp add: correction_step_def collapsed_house_def collapse_house_def new_house_def
      sq_distance_def x_slope_def y_slope_def sqrt_cmp Let_def)


lemma find_inclined_wall_Some:
  "find_inclined_wall s cutoff ws = Inr (Some w) \<Longrightarrow>
   w \<in> set ws
   \<and> sq_distance (Corner_pos s (Wall_p1 s w)) (Corner_pos s (Wall_p2 s w)) \<noteq> 0
   \<and> (0 < x_slope s w \<and> x_slope s w < cutoff \<or> 0 < y_slope s w \<and> y_slope s w < cutoff)"
  by (induction ws) (auto split: if_splits)

lemma map_of_rekey:
  "map_of (AList.update k' v (AList.delete k al)) = ((map_of al)(k := None))(k' \<mapsto> v)"
  by (rule ext) (simp add: update_conv delete_conv)

text \<open>
  C4, amended. When the scan finds an inclined wall \<open>w\<close>, the correction moves one
  endpoint \<open>m\<close> of \<open>w\<close>: for an x axis correction (the x slope lies strictly between 0
  and the cutoff) the endpoint with the smaller y, the second endpoint when the two
  are level, which takes its partner's x and keeps its y; otherwise (the y slope lies
  in that range) the endpoint with the smaller x, the second when level, which takes
  its partner's y and keeps its x. No other Corner moves. The index loses the key of
  the old position and maps the key of the new position to \<open>m\<close>; when the old key is
  not in the index the step raises KeyError, with the position already written.
\<close>

theorem correction_step_moves_top_or_left_vertex:
  assumes "find_inclined_wall s cutoff (walls s) = Inr (Some w)"
  shows "\<exists>m partner new_pos.
     (0 < x_slope s w \<and> x_slope s w < cutoff
        \<and> snd (Corner_pos s (Wall_p1 s w)) < snd (Corner_pos s (Wall_p2 s w))
        \<and> m = Wall_p1 s w \<and> partner = Wall_p2 s w
        \<and> new_pos = (fst (Corner_pos s partner), snd (Corner_pos s m))
      \<or> 0 < x_slope s w \<and> x_slope s w < cutoff
        \<and> snd (Corner_pos s (Wall_p2 s w)) \<le> snd (Corner_pos s (Wall_p1 s w))
        \<and> m = Wall_p2 s w \<and> partner = Wall_p1 s w
        \<and> new_pos = (fst (Corner_pos s partner), snd (Corner_pos s m))
      \<or> (x_slope s w \<le> 0 \<or> cutoff \<le> x_slope s w)
        \<and> 0 < y_slope s w \<and> y_slope s w < cutoff
        \<and> fst (Corner_pos s (Wall_p1 s w)) < fst (Corner_pos s (Wall_p2 s w))
        \<and> m = Wall_p1 s w \<and> partner = Wall_p2 s w
        \<and> new_pos = (fst (Corner_pos s m), snd (Corner_pos s partner))
      \<or> (x_slope s w \<le> 0 \<or> cutoff \<le> x_slope s w)
        \<and> 0 < y_slope s w \<and> y_slope s w < cutoff
        \<and> fst (Corner_pos s (Wall_p2 s w)) \<le> fst (Corner_pos s (Wall_p1 s w))
        \<and> m = Wall_p2 s w \<and> partner = Wall_p1 s w
        \<and> new_pos = (fst (Corner_pos s m), snd (Corner_pos s partner)))
     \<and> (if corner_key (Corner_pos s m) \<in> fst ` set (wall_corners s)
         then \<exists>s'. correction_step cutoff s = (Continue, s')
                \<and> Corner_pos s' = (Corner_pos s)(m := new_pos)
                \<and> map_of (wall_corners s')
                    = ((map_of (wall_corners s))(corner_key (Corner_pos s m) := None))
                        (corner_key new_pos \<mapsto> m)
         else \<exists>s'. correction_step cutoff s = (Raise KeyError, s')
                \<and> Corner_pos s' = (Corner_pos s)(m := new_pos)
                \<and> wall_corners s' = wall_corners s)"
proof -
  let ?a = "Corner_pos s (Wall_p1 s w)" and ?b = "Corner_pos s (Wall_p2 s w)"
  from find_inclined_wall_Some [OF assms]
  have d: "sq_distance ?a ?b \<noteq> 0"
    and xy: "0 < x_slope s w \<and> x_slope s w < cutoff \<or> 0 < y_slope s w \<and> y_slope s w < cutoff"
    by simp_all
  obtain m new_pos where cm: "choose_move s cutoff w = (m, new_pos)"
    by (cases "choose_move s cutoff w")
  define partner where "partner = (if m = Wall_p1 s w then Wall_p2 s w else Wall_p1 s w)"
  have step: "correction_step cutoff s =
      (case move_corner m new_pos s of (Some e, s') \<Rightarrow> (Raise e, s') | (None, s') \<Rightarrow> (Continue, s'))"
    using assms d cm by (simp add: correction_step_def)
  have idx: "if corner_key (Corner_pos s m) \<in> fst ` set (wall_corners s)
         then \<exists>s'. correction_step cutoff s = (Continue, s')
                \<and> Corner_pos s' = (Corner_pos s)(m := new_pos)
                \<and> map_of (wall_corners s')
                    = ((map_of (wall_corners s))(corner_key (Corner_pos s m) := None))
                        (corner_key new_pos \<mapsto> m)
         else \<exists>s'. correction_step cutoff s = (Raise KeyError, s')
                \<and> Corner_pos s' = (Corner_pos s)(m := new_pos)
                \<and> wall_corners s' = wall_corners s"
    unfolding step by (simp add: move_corner_def Let_def map_of_rekey)
  have shape: "0 < x_slope s w \<and> x_slope s w < cutoff
        \<and> snd ?a < snd ?b \<and> m = Wall_p1 s w \<and> new_pos = (fst ?b, snd ?a)
      \<or> 0 < x_slope s w \<and> x_slope s w < cutoff
        \<and> snd ?b \<le> snd ?a \<and> m = Wall_p2 s w \<and> new_pos = (fst ?a, snd ?b)
      \<or> (x_slope s w \<le> 0 \<or> cutoff \<le> x_slope s w)
        \<and> 0 < y_slope s w \<and> y_slope s w < cutoff
        \<and> fst ?a < fst ?b \<and> m = Wall_p1 s w \<and> new_pos = (fst ?a, snd ?b)
      \<or> (x_slope s w \<le> 0 \<or> cutoff \<le> x_slope s w)
        \<and> 0 < y_slope s w \<and> y_slope s w < cutoff
        \<and> fst ?b \<le> fst ?a \<and> m = Wall_p2 s w \<and> new_pos = (fst ?b, snd ?a)"
    using cm xy by (auto simp: choose_move_def Let_def split: if_splits)
  have ne: "Wall_p1 s w \<noteq> Wall_p2 s w"
    using d by (auto simp: sq_distance_def)
  show ?thesis
    apply (rule exI [of _ m], rule exI [of _ partner], rule exI [of _ new_pos])
    apply (rule conjI)
    subgoal using shape ne unfolding partner_def by auto
    subgoal by (rule idx)
    done
qed


lemma tilted_find:
  "find_inclined_wall tilted_house (1 / 10) (walls tilted_house) = Inr (Some 0)"
  by (simp add: tilted_house_def new_house_def sq_distance_def x_slope_def y_slope_def sqrt_cmp)

lemma tilted_step:
  "correction_step (1 / 10) tilted_house = (Continue, straightened_house)"
  by (simp add: correction_step_def tilted_find choose_move_def move_corner_def Let_def
      straightened_house_def corner_keys)
     (simp add: tilted_house_def new_house_def sq_distance_def x_slope_def y_slope_def
        sqrt_cmp corner_keys)

lemma straightened_step:
  "correction_step (1 / 10) straightened_house = (Break, straightened_house)"
  by (simp add: correction_step_def straightened_house_def tilted_house_def new_house_def
      sq_distance_def x_slope_def y_slope_def sqrt_cmp)

lemma tilted_slope: "0 < x_slope tilted_house 0" "x_slope tilted_house 0 < 1 / 10"
  by (simp_all add: tilted_house_def new_house_def sq_distance_def x_slope_def sqrt_cmp)

theorem correction_step_moves_top_or_left_vertex_witness:
  "find_inclined_wall tilted_house (1 / 10) (walls tilted_house) = Inr (Some 0)
   \<and> (\<exists>s'. correction_step (1 / 10) tilted_house = (Continue, s')
         \<and> Corner_pos s' = (Corner_pos tilted_house)(0 := (1, 0))
         \<and> map_of (wall_corners s')
             = ((map_of (wall_corners tilted_house))(''0_0'' := None))(''1_0'' \<mapsto> 0))"
proof -
  from correction_step_moves_top_or_left_vertex [OF tilted_find]
  obtain m partner new_pos where
    shape: "0 < x_slope tilted_house 0 \<and> x_slope tilted_house 0 < 1 / 10
        \<and> snd (Corner_pos tilted_house (Wall_p1 tilted_house 0))
            < snd (Corner_pos tilted_house (Wall_p2 tilted_house 0))
        \<and> m = Wall_p1 tilted_house 0 \<and> partner = Wall_p2 tilted_house 0
        \<and> new_pos = (fst (Corner_pos tilted_house partner), snd (Corner_pos tilted_house m))
      \<or> 0 < x_slope tilted_house 0 \<and> x_slope tilted_house 0 < 1 / 10
        \<and> snd (Corner_pos tilted_house (Wall_p2 tilted_house 0))
            \<le> snd (Corner_pos tilted_house (Wall_p1 tilted_house 0))
        \<and> m = Wall_p2 tilted_house 0 \<and> partner = Wall_p1 tilted_house 0
        \<and> new_pos = (fst (Corner_pos tilted_house partner), snd (Corner_pos tilted_house m))
      \<or> (x_slope tilted_house 0 \<le> 0 \<or> 1 / 10 \<le> x_slope tilted_house 0)
        \<and> 0 < y_slope tilted_house 0 \<and> y_slope tilted_house 0 < 1 / 10
        \<and> fst (Corner_pos tilted_house (Wall_p1 tilted_house 0))
            < fst (Corner_pos tilted_house (Wall_p2 tilted_house 0))
        \<and> m = Wall_p1 tilted_house 0 \<and> partner = Wall_p2 tilted_house 0
        \<and> new_pos = (fst (Corner_pos tilted_house m), snd (Corner_pos tilted_house partner))
      \<or> (x_slope tilted_house 0 \<le> 0 \<or> 1 / 10 \<le> x_slope tilted_house 0)
        \<and> 0 < y_slope tilted_house 0 \<and> y_slope tilted_house 0 < 1 / 10
        \<and> fst (Corner_pos tilted_house (Wall_p2 tilted_house 0))
            \<le> fst (Corner_pos tilted_house (Wall_p1 tilted_house 0))
        \<and> m = Wall_p2 tilted_house 0 \<and> partner = Wall_p1 tilted_house 0
        \<and> new_pos = (fst (Corner_pos tilted_house m), snd (Corner_pos tilted_house partner))"
    and idx: "if corner_key (Corner_pos tilted_house m) \<in> fst ` set (wall_corners tilted_house)
         then \<exists>s'. correction_step (1 / 10) tilted_house = (Continue, s')
                \<and> Corner_pos s' = (Corner_pos tilted_house)(m := new_pos)
                \<and> map_of (wall_corners s')
                    = ((map_of (wall_corners tilted_house))
                          (corner_key (Corner_pos tilted_house m) := None))
                        (corner_key new_pos \<mapsto> m)
         else \<exists>s'. correction_step (1 / 10) tilted_house = (Raise KeyError, s')
                \<and> Corner_pos s' = (Corner_pos tilted_house)(m := new_pos)
                \<and> wall_corners s' = wall_corners tilted_house"
    by blast
  have vals: "Wall_p1 tilted_house 0 = 0" "Wall_p2 tilted_house 0 = 1"
    "Corner_pos tilted_house 0 = (0, 0)" "Corner_pos tilted_house (Suc 0) = (1, 100)"
    "wall_corners tilted_house = [(''0_0'', 0), (''1_100'', 1)]"
    by (simp_all add: tilted_house_def new_house_def)
  from shape tilted_slope have m: "m = 0" "new_pos = (1, 0)"
    by (auto simp: vals)
  from idx show ?thesis
    using tilted_find by (simp add: m vals corner_keys)
qed

text \<open>
  C4, as stated, fails: the wall of \<open>tilted_house\<close> is nearly vertical (its x slope is
  strictly between 0 and the cutoff) and its second endpoint has the greater y, yet
  \<open>straighten_walls\<close> leaves that endpoint where it is and moves the first endpoint, the
  one with the smaller y.
\<close>

theorem straighten_walls_moves_greater_y_counterexample:
  "0 < x_slope tilted_house 0 \<and> x_slope tilted_house 0 < straighten_walls_cutoff_gradient example_conf
   \<and> snd (Corner_pos tilted_house (Wall_p1 tilted_house 0))
       < snd (Corner_pos tilted_house (Wall_p2 tilted_house 0))
   \<and> fst (straighten_walls example_conf tilted_house) = None
   \<and> Corner_pos (snd (straighten_walls example_conf tilted_house)) (Wall_p2 tilted_house 0)
       = Corner_pos tilted_house (Wall_p2 tilted_house 0)
   \<and> Corner_pos tilted_house (Wall_p1 tilted_house 0) = (0, 0)
   \<and> Corner_pos (snd (straighten_walls example_conf tilted_house)) (Wall_p1 tilted_house 0)
       = (1, 0)"
proof -
  have run: "straighten_walls example_conf tilted_house = (None, straightened_house)"
    by (simp add: straighten_walls_def example_conf_def straighten_loop.simps tilted_step
        straightened_step)
  have vals: "Wall_p1 tilted_house 0 = 0" "Wall_p2 tilted_house 0 = 1"
    "Corner_pos tilted_house 0 = (0, 0)" "Corner_pos tilted_house (Suc 0) = (1, 100)"
    by (simp_all add: tilted_house_def new_house_def)
  have cutoff: "straighten_walls_cutoff_gradient example_conf = 1 / 10"
    by (simp add: example_conf_def)
  show ?thesis
    using tilted_slope by (simp add: run vals straightened_house_def cutoff)
qed

theorem straighten_walls_failure_wrapped_witness:
  "straighten_walls example_conf collapse_house
     = (Some (StraightenWallsFailed ''plan.txt'' 1 ZeroDivisionError), collapsed_house)"
proof -
  have "\<exists>k e t. int k < straighten_walls_max_iter example_conf
        \<and> corrections (straighten_walls_cutoff_gradient example_conf) k collapse_house = Some t
        \<and> correction_step (straighten_walls_cutoff_gradient example_conf) t
            = (Raise e, collapsed_house)
        \<and> StraightenWallsFailed ''plan.txt'' 1 ZeroDivisionError
            = StraightenWallsFailed (file_name collapse_house) (int k) e"
    apply (rule exI [of _ 1], rule exI [of _ ZeroDivisionError], rule exI [of _ collapsed_house])
    apply (simp add: example_conf_def collapse_step collapsed_step)
    apply (simp add: collapse_house_def new_house_def)
    done
  then show ?thesis
    by (simp only: straighten_walls_failure_wrapped)
qed

section \<open>Wall graph: how endpoints are bound to Corners\<close>

lemma distance_tuples_iff:
  "x \<in> set (distance_tuples s t nodes cutoff []) \<longleftrightarrow>
     snd x \<in> snd ` set nodes
     \<and> fst x = manhattan_distance_between (Corner_pos s (snd x)) t
     \<and> real_of_int (fst x) < cutoff"
  by (cases x) (auto simp: distance_tuples_def)

lemma find_closest_members:
  assumes "find_closest s t nodes cutoff [] = (a, b)"
  shows "(\<forall>c. a = Some c \<longrightarrow> c \<in> snd ` set nodes
            \<and> real_of_int (manhattan_distance_between (Corner_pos s c) t) < cutoff)
       \<and> (\<forall>c. b = Some c \<longrightarrow> c \<in> snd ` set nodes
            \<and> real_of_int (manhattan_distance_between (Corner_pos s c) t) < cutoff)"
proof -
  let ?dts = "distance_tuples s t nodes cutoff []"
  have mem: "x \<in> set (sort_key fst ?dts) \<Longrightarrow> snd x \<in> snd ` set nodes
      \<and> real_of_int (manhattan_distance_between (Corner_pos s (snd x)) t) < cutoff" for x
    using distance_tuples_iff [of x s t nodes cutoff] by simp
  from assms have res: "(case sort_key fst ?dts of
           a # b # rest \<Rightarrow> (Some (snd a), Some (snd b))
         | [a] \<Rightarrow> (Some (snd a), None)
         | [] \<Rightarrow> (None, None)) = (a, b)"
    by (simp add: find_closest_def)
  show ?thesis
  proof (cases "sort_key fst ?dts")
    case Nil
    with res show ?thesis by simp
  next
    case (Cons x xs)
    then have x: "x \<in> set (sort_key fst ?dts)" by simp
    show ?thesis
    proof (cases xs)
      case Nil
      with Cons res mem [OF x] show ?thesis by auto
    next
      case (Cons y ys)
      with \<open>sort_key fst ?dts = x # xs\<close> have y: "y \<in> set (sort_key fst ?dts)" by simp
      from Cons \<open>sort_key fst ?dts = x # xs\<close> res mem [OF x] mem [OF y] show ?thesis by auto
    qed
  qed
qed

lemma find_closest_None_iff:
  "fst (find_closest s t nodes cutoff []) = None \<longleftrightarrow>
     (\<forall>c \<in> snd ` set nodes.
        \<not> real_of_int (manhattan_distance_between (Corner_pos s c) t) < cutoff)"
proof -
  let ?dts = "distance_tuples s t nodes cutoff []"
  have "fst (find_closest s t nodes cutoff []) = None \<longleftrightarrow> sort_key fst ?dts = []"
    by (simp add: find_closest_def split: list.splits)
  also have "\<dots> \<longleftrightarrow> set ?dts = {}"
    by (metis set_empty set_sort)
  also have "\<dots> \<longleftrightarrow> (\<forall>c \<in> snd ` set nodes.
        \<not> real_of_int (manhattan_distance_between (Corner_pos s c) t) < cutoff)"
  proof
    assume e: "set ?dts = {}"
    show "\<forall>c \<in> snd ` set nodes.
        \<not> real_of_int (manhattan_distance_between (Corner_pos s c) t) < cutoff"
    proof (intro ballI notI)
      fix c assume "c \<in> snd ` set nodes"
        and "real_of_int (manhattan_distance_between (Corner_pos s c) t) < cutoff"
      then have "(manhattan_distance_between (Corner_pos s c) t, c) \<in> set ?dts"
        by (simp add: distance_tuples_iff)
      with e show False by simp
    qed
  next
    assume "\<forall>c \<in> snd ` set nodes.
        \<not> real_of_int (manhattan_distance_between (Corner_pos s c) t) < cutoff"
    then have "x \<notin> set ?dts" for x
      by (auto simp: distance_tuples_iff)
    then show "set ?dts = {}" by (meson equals0I)
  qed
  finally show ?thesis .
qed

lemma find_closest_nearest:
  assumes "fst (find_closest s t nodes cutoff []) = Some c" and "c' \<in> snd ` set nodes"
  shows "manhattan_distance_between (Corner_pos s c) t
           \<le> manhattan_distance_between (Corner_pos s c') t"
proof -
  let ?dts = "distance_tuples s t nodes cutoff []"
  from assms(1) obtain x xs where srt: "sort_key fst ?dts = x # xs" and c: "c = snd x"
    by (auto simp: find_closest_def split: list.splits)
  have "x \<in> set ?dts" by (metis list.set_intros(1) set_sort srt)
  then have x: "fst x = manhattan_distance_between (Corner_pos s c) t"
    "real_of_int (manhattan_distance_between (Corner_pos s c) t) < cutoff"
    using c by (simp_all add: distance_tuples_iff)
  have "sorted (map fst (sort_key fst ?dts))" by (rule sorted_sort_key)
  with srt have "\<forall>y \<in> set xs. fst x \<le> fst y" by simp
  moreover have "set ?dts = insert x (set xs)"
    by (metis list.simps(15) set_sort srt)
  ultimately have least: "\<forall>y \<in> set ?dts. fst x \<le> fst y" by auto
  show ?thesis
  proof (cases "real_of_int (manhattan_distance_between (Corner_pos s c') t) < cutoff")
    case True
    with assms(2) have "(manhattan_distance_between (Corner_pos s c') t, c') \<in> set ?dts"
      by (simp add: distance_tuples_iff)
    with least x(1) show ?thesis by force
  next
    case False
    with x(2) show ?thesis by linarith
  qed
qed


lemma values_update:
  "(a, b) \<in> set (AList.update k v al) \<Longrightarrow> b = v \<or> b \<in> snd ` set al"
  by (induction al) (force split: if_splits)+

lemma update_has_value: "v \<in> snd ` set (AList.update k v al)"
  by (induction al) (auto simp: image_iff)

text \<open>What \<open>or_new_corner\<close> does to the state, given that the Corners of the index are
  allocated.\<close>

lemma or_new_corner_cases:
  assumes "or_new_corner c p s = (n, s')"
  shows "(c = Some n \<and> s' = s)
       \<or> (c = None \<and> n = n_corners s \<and> n_corners s' = Suc n \<and> Corner_pos s' n = p
            \<and> (\<forall>x. x \<noteq> n \<longrightarrow> Corner_pos s' x = Corner_pos s x)
            \<and> snd ` set (wall_corners s') \<subseteq> insert n (snd ` set (wall_corners s))
            \<and> tolerance_distance s' = tolerance_distance s \<and> n_walls s' = n_walls s
            \<and> walls s' = walls s)"
  using assms
  by (cases c) (auto simp: or_new_corner_def new_corner_def Let_def dest: values_update)


lemma manhattan_distance_zero:
  "manhattan_distance_between a b = 0 \<longleftrightarrow> a = b"
  by (auto simp: manhattan_distance_between_def max_def prod_eq_iff)

lemma manhattan_distance_nonneg: "0 \<le> manhattan_distance_between a b"
  by (simp add: manhattan_distance_between_def)

lemma add_wall_unfold:
  assumes ok: "add_wall p1 p2 l r s = Inr s'" and ne: "p1 \<noteq> p2"
  obtains c1 b1 n1 s1 c2 b2 n2 s2 t1 t2 m1 s3 m2 s4 where
    "find_closest s p1 (wall_corners s) (tolerance_distance s) [] = (c1, b1)"
    "or_new_corner c1 p1 s = (n1, s1)"
    "find_closest s1 p2 (wall_corners s1) (tolerance_distance s1) [] = (c2, b2)"
    "or_new_corner c2 p2 s1 = (n2, s2)"
    "(t1, t2) = (if n1 = n2
                then (if manhattan_distance_between (Corner_pos s2 n1) p1
                           < manhattan_distance_between (Corner_pos s2 n1) p2
                      then (Some n1, b2) else (b1, Some n2))
                else (Some n1, Some n2))"
    "or_new_corner t1 p1 s2 = (m1, s3)"
    "or_new_corner t2 p2 s3 = (m2, s4)"
    "Corner_pos s4 m1 \<noteq> Corner_pos s4 m2"
    "s' = link_wall m1 m2 l r s4"
proof -
  obtain c1 b1 where fc1: "find_closest s p1 (wall_corners s) (tolerance_distance s) [] = (c1, b1)"
    by (cases "find_closest s p1 (wall_corners s) (tolerance_distance s) []")
  obtain n1 s1 where on1: "or_new_corner c1 p1 s = (n1, s1)"
    by (cases "or_new_corner c1 p1 s")
  obtain c2 b2 where fc2: "find_closest s1 p2 (wall_corners s1) (tolerance_distance s1) [] = (c2, b2)"
    by (cases "find_closest s1 p2 (wall_corners s1) (tolerance_distance s1) []")
  obtain n2 s2 where on2: "or_new_corner c2 p2 s1 = (n2, s2)"
    by (cases "or_new_corner c2 p2 s1")
  obtain t1 t2 where tb: "(t1, t2) = (if n1 = n2
                then (if manhattan_distance_between (Corner_pos s2 n1) p1
                           < manhattan_distance_between (Corner_pos s2 n1) p2
                      then (Some n1, b2) else (b1, Some n2))
                else (Some n1, Some n2))"
    by metis
  obtain m1 s3 where on3: "or_new_corner t1 p1 s2 = (m1, s3)"
    by (cases "or_new_corner t1 p1 s2")
  obtain m2 s4 where on4: "or_new_corner t2 p2 s3 = (m2, s4)"
    by (cases "or_new_corner t2 p2 s3")
  from ne have ne': "\<not> (fst p1 = fst p2 \<and> snd p1 = snd p2)"
    by (simp add: prod_eq_iff)
  have "add_wall p1 p2 l r s =
      (if fst (Corner_pos s4 m1) = fst (Corner_pos s4 m2)
            \<and> snd (Corner_pos s4 m1) = snd (Corner_pos s4 m2)
       then Inl AssertionError else Inr (link_wall m1 m2 l r s4))"
    unfolding add_wall_def using ne' fc1 on1 fc2 on2 tb [symmetric] on3 on4
    by (simp only: if_not_P Let_def prod.case if_False)
  with ok have "Corner_pos s4 m1 \<noteq> Corner_pos s4 m2" "s' = link_wall m1 m2 l r s4"
    by (auto simp: prod_eq_iff split: if_splits)
  with fc1 on1 fc2 on2 tb on3 on4 show ?thesis by (rule that)
qed


lemma or_new_corner_step:
  assumes "or_new_corner c p sX = (n, sY)"
  shows "n_corners sX \<le> n_corners sY"
    and "\<forall>x < n_corners sX. Corner_pos sY x = Corner_pos sX x"
    and "tolerance_distance sY = tolerance_distance sX"
    and "n_walls sY = n_walls sX"
    and "walls sY = walls sX"
    and "c = Some n \<and> sY = sX
         \<or> c = None \<and> n = n_corners sX \<and> n < n_corners sY \<and> Corner_pos sY n = p
             \<and> snd ` set (wall_corners sY) \<subseteq> insert n (snd ` set (wall_corners sX))"
  using or_new_corner_cases [OF assms] by auto

lemma link_wall_fields:
  "Wall_p1 (link_wall m1 m2 l r s) (n_walls s) = m1"
  "Wall_p2 (link_wall m1 m2 l r s) (n_walls s) = m2"
  "Corner_pos (link_wall m1 m2 l r s) = Corner_pos s"
  "walls (link_wall m1 m2 l r s) = walls s @ [n_walls s]"
  "wall_corners (link_wall m1 m2 l r s) = wall_corners s"
  by (simp_all add: link_wall_def Let_def)

lemma add_wall_endpoints:
  assumes ok: "add_wall p1 p2 l r s = Inr s'" and ne: "p1 \<noteq> p2"
    and alloc: "\<forall>c \<in> snd ` set (wall_corners s). c < n_corners s"
    and m1_def: "m1 = Wall_p1 s' (n_walls s)" and m2_def: "m2 = Wall_p2 s' (n_walls s)"
  shows "m1 \<noteq> m2"
    and "walls s' = walls s @ [n_walls s]"
    and "m1 \<in> snd ` set (wall_corners s)
           \<and> real_of_int (manhattan_distance_between (Corner_pos s m1) p1) < tolerance_distance s
         \<or> n_corners s \<le> m1 \<and> Corner_pos s' m1 = p1"
    and "m2 \<in> snd ` set (wall_corners s)
           \<and> real_of_int (manhattan_distance_between (Corner_pos s m2) p2) < tolerance_distance s
         \<or> n_corners s \<le> m2 \<and> Corner_pos s' m2 = p2"
    and "fst (find_closest s p1 (wall_corners s) (tolerance_distance s) []) = Some c \<Longrightarrow>
         fst (find_closest s p2 (wall_corners s) (tolerance_distance s) []) \<noteq> Some c \<Longrightarrow>
         m1 = c"
    and "fst (find_closest s p1 (wall_corners s) (tolerance_distance s) []) = Some c \<Longrightarrow>
         fst (find_closest s p2 (wall_corners s) (tolerance_distance s) []) = Some c' \<Longrightarrow>
         c \<noteq> c' \<Longrightarrow> m2 = c'"
proof -
  from ok ne obtain c1 b1 n1 s1 c2 b2 n2 s2 t1 t2 k1 s3 k2 s4 where
    fc1: "find_closest s p1 (wall_corners s) (tolerance_distance s) [] = (c1, b1)" and
    on1: "or_new_corner c1 p1 s = (n1, s1)" and
    fc2: "find_closest s1 p2 (wall_corners s1) (tolerance_distance s1) [] = (c2, b2)" and
    on2: "or_new_corner c2 p2 s1 = (n2, s2)" and
    tb: "(t1, t2) = (if n1 = n2
                then (if manhattan_distance_between (Corner_pos s2 n1) p1
                           < manhattan_distance_between (Corner_pos s2 n1) p2
                      then (Some n1, b2) else (b1, Some n2))
                else (Some n1, Some n2))" and
    on3: "or_new_corner t1 p1 s2 = (k1, s3)" and
    on4: "or_new_corner t2 p2 s3 = (k2, s4)" and
    differ: "Corner_pos s4 k1 \<noteq> Corner_pos s4 k2" and
    s': "s' = link_wall k1 k2 l r s4"
    by (rule add_wall_unfold)
  note st1 = or_new_corner_step [OF on1] and st2 = or_new_corner_step [OF on2]
    and st3 = or_new_corner_step [OF on3] and st4 = or_new_corner_step [OF on4]
  have nw: "n_walls s4 = n_walls s"
    using st1(4) st2(4) st3(4) st4(4) by simp
  have m: "m1 = k1" "m2 = k2" and pos': "Corner_pos s' = Corner_pos s4"
    unfolding m1_def m2_def s' nw [symmetric] by (simp_all add: link_wall_fields)
  let ?old = "snd ` set (wall_corners s)" and ?tol = "tolerance_distance s"
  have keep1: "Corner_pos s4 x = Corner_pos s1 x" if "x < n_corners s1" for x
    using that st2(1,2) st3(1,2) st4(2) by (metis less_le_trans)
  have keep0: "Corner_pos s4 x = Corner_pos s x" if "x < n_corners s" for x
    using that st1(1,2) keep1 by (metis less_le_trans)
  have keep2: "Corner_pos s4 x = Corner_pos s2 x" if "x < n_corners s2" for x
    using that st3(1,2) st4(2) by (metis less_le_trans)
  have keep3: "Corner_pos s4 x = Corner_pos s3 x" if "x < n_corners s3" for x
    using that st4(2) by simp
  have le: "n_corners s \<le> n_corners s1" "n_corners s \<le> n_corners s2" "n_corners s \<le> n_corners s3"
    using st1(1) st2(1) st3(1) by simp_all
  from find_closest_members [OF fc1]
  have mem1: "c1 = Some x \<Longrightarrow> x \<in> ?old
      \<and> real_of_int (manhattan_distance_between (Corner_pos s x) p1) < ?tol"
    and memb1: "b1 = Some x \<Longrightarrow> x \<in> ?old
      \<and> real_of_int (manhattan_distance_between (Corner_pos s x) p1) < ?tol" for x
    by blast+
  from find_closest_members [OF fc2] st1(3)
  have mem2: "c2 = Some x \<Longrightarrow> x \<in> snd ` set (wall_corners s1)
      \<and> real_of_int (manhattan_distance_between (Corner_pos s1 x) p2) < ?tol"
    and memb2: "b2 = Some x \<Longrightarrow> x \<in> snd ` set (wall_corners s1)
      \<and> real_of_int (manhattan_distance_between (Corner_pos s1 x) p2) < ?tol" for x
    by auto
  have old1: "x \<in> ?old \<and> Corner_pos s1 x = Corner_pos s x \<or> c1 = None \<and> x = n1"
    if "x \<in> snd ` set (wall_corners s1)" for x
  proof (cases "x \<in> ?old")
    case True
    with alloc have "x < n_corners s" by auto
    with st1(2) True show ?thesis by simp
  next
    case False
    with that st1(6) show ?thesis by auto
  qed
  have n1: "c1 = Some n1 \<and> n1 \<in> ?old
        \<and> real_of_int (manhattan_distance_between (Corner_pos s n1) p1) < ?tol
      \<or> c1 = None \<and> n_corners s \<le> n1 \<and> Corner_pos s4 n1 = p1"
    using st1(6) mem1 keep1 by auto
  have fresh1: "Corner_pos s2 n1 = p1" if "c1 = None"
    using that st1(6) st2(2) by auto
  have fresh_nearer: "manhattan_distance_between (Corner_pos s2 n1) p1
          < manhattan_distance_between (Corner_pos s2 n1) p2" if "c1 = None"
  proof -
    have "manhattan_distance_between (Corner_pos s2 n1) p1 = 0"
      using fresh1 [OF that] by (simp add: manhattan_distance_zero)
    moreover have "manhattan_distance_between (Corner_pos s2 n1) p2 \<noteq> 0"
      using fresh1 [OF that] ne by (simp add: manhattan_distance_zero)
    ultimately show ?thesis
      using manhattan_distance_nonneg [of "Corner_pos s2 n1" p2] by linarith
  qed
  show g1: "m1 \<noteq> m2"
    using differ m by auto
  show "walls s' = walls s @ [n_walls s]"
    unfolding s' using st1(5) st2(5) st3(5) st4(5) nw by (simp add: link_wall_fields)
  show g2: "m1 \<in> ?old
           \<and> real_of_int (manhattan_distance_between (Corner_pos s m1) p1) < ?tol
         \<or> n_corners s \<le> m1 \<and> Corner_pos s' m1 = p1"
  proof -
    from tb have "t1 = Some n1 \<or> t1 = b1" by (auto split: if_splits)
    then show ?thesis
    proof
      assume "t1 = Some n1"
      with st3(6) have "k1 = n1" by auto
      with n1 m pos' show ?thesis by auto
    next
      assume t1: "t1 = b1"
      from st3(6) show ?thesis
      proof
        assume "t1 = Some k1 \<and> s3 = s2"
        with t1 memb1 [of k1] m show ?thesis by simp
      next
        assume f: "t1 = None \<and> k1 = n_corners s2 \<and> k1 < n_corners s3 \<and> Corner_pos s3 k1 = p1
          \<and> snd ` set (wall_corners s3) \<subseteq> insert k1 (snd ` set (wall_corners s2))"
        with keep3 [of k1] le(2) m pos' show ?thesis by auto
      qed
    qed
  qed
  show g3: "m2 \<in> ?old
           \<and> real_of_int (manhattan_distance_between (Corner_pos s m2) p2) < ?tol
         \<or> n_corners s \<le> m2 \<and> Corner_pos s' m2 = p2"
  proof -
    have via_index: ?thesis
      if x: "k2 \<in> snd ` set (wall_corners s1)"
        "real_of_int (manhattan_distance_between (Corner_pos s1 k2) p2) < ?tol"
        and t1: "c1 = None \<Longrightarrow> k1 = n1"
    proof -
      from old1 [OF x(1)] show ?thesis
      proof
        assume "k2 \<in> ?old \<and> Corner_pos s1 k2 = Corner_pos s k2"
        with x(2) m show ?thesis by simp
      next
        assume "c1 = None \<and> k2 = n1"
        with t1 differ show ?thesis by simp
      qed
    qed
    from tb have "t2 = Some n2 \<and> (n1 = n2 \<longrightarrow> t1 = b1
          \<and> \<not> manhattan_distance_between (Corner_pos s2 n1) p1
                < manhattan_distance_between (Corner_pos s2 n1) p2)
        \<or> t2 = b2 \<and> t1 = Some n1"
      by (auto split: if_splits)
    then show ?thesis
    proof
      assume a: "t2 = Some n2 \<and> (n1 = n2 \<longrightarrow> t1 = b1
          \<and> \<not> manhattan_distance_between (Corner_pos s2 n1) p1
                < manhattan_distance_between (Corner_pos s2 n1) p2)"
      with st4(6) have k2: "k2 = n2" by auto
      from st2(6) show ?thesis
      proof
        assume c2: "c2 = Some n2 \<and> s2 = s1"
        have "c1 = None \<Longrightarrow> k1 = n1"
        proof -
          assume c1: "c1 = None"
          show "k1 = n1"
          proof (cases "n1 = n2")
            case True
            with fresh_nearer [OF c1] a show ?thesis by simp
          next
            case False
            with tb have "t1 = Some n1" by simp
            with st3(6) show ?thesis by auto
          qed
        qed
        with mem2 [of n2] c2 k2 show ?thesis by (intro via_index) simp_all
      next
        assume "c2 = None \<and> n2 = n_corners s1 \<and> n2 < n_corners s2 \<and> Corner_pos s2 n2 = p2
          \<and> snd ` set (wall_corners s2) \<subseteq> insert n2 (snd ` set (wall_corners s1))"
        with keep2 [of n2] le(1) k2 m pos' show ?thesis by auto
      qed
    next
      assume a: "t2 = b2 \<and> t1 = Some n1"
      with st3(6) have k1: "k1 = n1" by auto
      from st4(6) show ?thesis
      proof
        assume "t2 = Some k2 \<and> s4 = s3"
        with a memb2 [of k2] k1 show ?thesis by (intro via_index) simp_all
      next
        assume "t2 = None \<and> k2 = n_corners s3 \<and> k2 < n_corners s4 \<and> Corner_pos s4 k2 = p2
          \<and> snd ` set (wall_corners s4) \<subseteq> insert k2 (snd ` set (wall_corners s3))"
        with le(3) m pos' show ?thesis by auto
      qed
    qed
  qed
  {
    assume a: "fst (find_closest s p1 (wall_corners s) ?tol []) = Some c"
      and b: "fst (find_closest s p2 (wall_corners s) ?tol []) \<noteq> Some c"
    from a fc1 have c1: "c1 = Some c" by simp
    with st1(6) have s1: "n1 = c" "s1 = s" by auto
    from b fc2 s1 have "c2 \<noteq> Some c" by auto
    moreover from mem1 [OF c1] alloc have "c < n_corners s" by auto
    ultimately have "n2 \<noteq> c" using st2(6) s1 by auto
    with tb s1 have "t1 = Some c" by simp
    with st3(6) m show "m1 = c" by auto
  next
    assume a: "fst (find_closest s p1 (wall_corners s) ?tol []) = Some c"
      and b: "fst (find_closest s p2 (wall_corners s) ?tol []) = Some c'" and d: "c \<noteq> c'"
    from a fc1 have c1: "c1 = Some c" by simp
    with st1(6) have s1: "n1 = c" "s1 = s" by auto
    from b fc2 s1 have "c2 = Some c'" by auto
    with st2(6) have "n2 = c'" by auto
    with tb s1 d have "t2 = Some c'" by simp
    with st4(6) m show "m2 = c'" by auto
  }
qed


lemma add_wall_choice:
  assumes ok: "add_wall p1 p2 l r s = Inr s'" and ne: "p1 \<noteq> p2"
    and alloc: "\<forall>c \<in> snd ` set (wall_corners s). c < n_corners s"
    and fc1: "find_closest s p1 (wall_corners s) (tolerance_distance s) [] = (c1, b1)"
    and on1: "or_new_corner c1 p1 s = (n1, s1)"
    and fc2: "find_closest s1 p2 (wall_corners s1) (tolerance_distance s) [] = (c2, b2)"
  shows "c2 \<noteq> Some n1 \<Longrightarrow> Wall_p1 s' (n_walls s) = n1"
    and "c2 = Some c' \<Longrightarrow> c' \<noteq> n1 \<Longrightarrow> Wall_p2 s' (n_walls s) = c'"
    and "c2 = None \<Longrightarrow>
         Wall_p2 s' (n_walls s) = n_corners s1 \<and> Corner_pos s' (n_corners s1) = p2"
    and "c2 = Some n1 \<Longrightarrow>
         manhattan_distance_between (Corner_pos s1 n1) p1
           < manhattan_distance_between (Corner_pos s1 n1) p2 \<Longrightarrow>
         Wall_p1 s' (n_walls s) = n1
         \<and> (\<forall>b. b2 = Some b \<longrightarrow> Wall_p2 s' (n_walls s) = b)
         \<and> (b2 = None \<longrightarrow>
              Wall_p2 s' (n_walls s) = n_corners s1 \<and> Corner_pos s' (n_corners s1) = p2)"
    and "c2 = Some n1 \<Longrightarrow>
         \<not> manhattan_distance_between (Corner_pos s1 n1) p1
             < manhattan_distance_between (Corner_pos s1 n1) p2 \<Longrightarrow>
         Wall_p2 s' (n_walls s) = n1
         \<and> (\<forall>b. b1 = Some b \<longrightarrow> Wall_p1 s' (n_walls s) = b)
         \<and> (b1 = None \<longrightarrow>
              Wall_p1 s' (n_walls s) = n_corners s1 \<and> Corner_pos s' (n_corners s1) = p1)"
proof -
  from ok ne obtain c1' b1' n1' s1' c2' b2' n2 s2 t1 t2 k1 s3 k2 s4 where
    fc1': "find_closest s p1 (wall_corners s) (tolerance_distance s) [] = (c1', b1')" and
    on1': "or_new_corner c1' p1 s = (n1', s1')" and
    fc2': "find_closest s1' p2 (wall_corners s1') (tolerance_distance s1') [] = (c2', b2')" and
    on2: "or_new_corner c2' p2 s1' = (n2, s2)" and
    tb: "(t1, t2) = (if n1' = n2
                then (if manhattan_distance_between (Corner_pos s2 n1') p1
                           < manhattan_distance_between (Corner_pos s2 n1') p2
                      then (Some n1', b2') else (b1', Some n2))
                else (Some n1', Some n2))" and
    on3: "or_new_corner t1 p1 s2 = (k1, s3)" and
    on4: "or_new_corner t2 p2 s3 = (k2, s4)" and
    differ: "Corner_pos s4 k1 \<noteq> Corner_pos s4 k2" and
    s': "s' = link_wall k1 k2 l r s4"
    by (rule add_wall_unfold)
  from fc1 fc1' have e1: "c1' = c1" "b1' = b1" by simp_all
  with on1 on1' have e2: "n1' = n1" "s1' = s1" by simp_all
  note st1 = or_new_corner_step [OF on1] and st2 = or_new_corner_step [OF on2]
    and st3 = or_new_corner_step [OF on3] and st4 = or_new_corner_step [OF on4]
  from fc2 fc2' e2 st1(3) have e3: "c2' = c2" "b2' = b2" by simp_all
  have nw: "n_walls s4 = n_walls s"
    using st1(4) st2(4) st3(4) st4(4) e2 by simp
  have m: "Wall_p1 s' (n_walls s) = k1" "Wall_p2 s' (n_walls s) = k2"
    and pos': "Corner_pos s' = Corner_pos s4"
    unfolding s' nw [symmetric] by (simp_all add: link_wall_fields)
  have n1_lt: "n1 < n_corners s1"
  proof (cases c1)
    case None
    with st1(6) show ?thesis by auto
  next
    case (Some x)
    with st1(6) have "x = n1" "s1 = s" by auto
    moreover from find_closest_members [OF fc1] Some alloc have "x < n_corners s" by blast
    ultimately show ?thesis by simp
  qed
  have fresh2: "n2 = n_corners s1 \<and> Corner_pos s2 n2 = p2 \<and> n2 \<noteq> n1" if "c2 = None"
    using that st2(6) e2 e3 n1_lt by auto
  have tie: "n2 = n1 \<and> s2 = s1" if "c2 = Some n1"
    using that st2(6) e2 e3 by auto
  show "Wall_p1 s' (n_walls s) = n1" if a: "c2 \<noteq> Some n1"
  proof -
    have "n2 \<noteq> n1"
    proof (cases c2)
      case None
      with fresh2 show ?thesis by simp
    next
      case (Some x)
      with st2(6) e3 a show ?thesis by auto
    qed
    with tb e2 have "t1 = Some n1" by simp
    with st3(6) m show ?thesis by auto
  qed
  show "Wall_p2 s' (n_walls s) = c'" if a: "c2 = Some c'" "c' \<noteq> n1"
  proof -
    from a st2(6) e3 have "n2 = c'" by auto
    with tb a e2 have "t2 = Some c'" by simp
    with st4(6) m show ?thesis by auto
  qed
  show "Wall_p2 s' (n_walls s) = n_corners s1 \<and> Corner_pos s' (n_corners s1) = p2"
    if a: "c2 = None"
  proof -
    from fresh2 [OF a] tb e2 have t: "t1 = Some n1" "t2 = Some n2" by simp_all
    with st3(6) have "s3 = s2" by auto
    moreover from t st4(6) have "k2 = n2" "s4 = s3" by auto
    ultimately show ?thesis using fresh2 [OF a] m pos' by auto
  qed
  show "Wall_p1 s' (n_walls s) = n1
         \<and> (\<forall>b. b2 = Some b \<longrightarrow> Wall_p2 s' (n_walls s) = b)
         \<and> (b2 = None \<longrightarrow>
              Wall_p2 s' (n_walls s) = n_corners s1 \<and> Corner_pos s' (n_corners s1) = p2)"
    if a: "c2 = Some n1"
      and near: "manhattan_distance_between (Corner_pos s1 n1) p1
           < manhattan_distance_between (Corner_pos s1 n1) p2"
  proof -
    from tie [OF a] tb e2 e3 near have t: "t1 = Some n1" "t2 = b2" by simp_all
    with st3(6) have k1: "k1 = n1" "s3 = s2" by auto
    have "k2 = b" if "b2 = Some b" for b
      using that t st4(6) by auto
    moreover have "k2 = n_corners s1 \<and> Corner_pos s4 k2 = p2" if "b2 = None"
      using that t st4(6) k1 tie [OF a] by auto
    ultimately show ?thesis using k1 m pos' by auto
  qed
  show "Wall_p2 s' (n_walls s) = n1
         \<and> (\<forall>b. b1 = Some b \<longrightarrow> Wall_p1 s' (n_walls s) = b)
         \<and> (b1 = None \<longrightarrow>
              Wall_p1 s' (n_walls s) = n_corners s1 \<and> Corner_pos s' (n_corners s1) = p1)"
    if a: "c2 = Some n1"
      and far: "\<not> manhattan_distance_between (Corner_pos s1 n1) p1
             < manhattan_distance_between (Corner_pos s1 n1) p2"
  proof -
    from tie [OF a] tb e1 e2 far have t: "t1 = b1" "t2 = Some n1" by simp_all
    have k2: "k2 = n1" "s4 = s3" using t st4(6) by auto
    have "k1 = b" if "b1 = Some b" for b
      using that t st3(6) by auto
    moreover have "k1 = n_corners s1 \<and> Corner_pos s4 k1 = p1" if "b1 = None"
      using that t st3(6) k2 tie [OF a] by auto
    ultimately show ?thesis using k2 m pos' by auto
  qed
qed


text \<open>
  C2. What \<open>add_wall\<close> does with the two raw endpoints of an accepted wall. The first
  endpoint is looked up in the index with \<open>find_closest\<close>, whose distance is the one
  \<open>manhattan_distance_between\<close> returns and whose test against \<open>tolerance_distance\<close> is
  strict; when nothing is found a Corner is created at the raw position and indexed.
  The second endpoint is looked up in the index as it is then. Unless both lookups
  give the same Corner, each endpoint is bound to the Corner of its lookup, the nearest
  within tolerance, or to its new Corner. When both give the same Corner, the endpoint
  nearer to it keeps it and the other takes its own second closest Corner, or a new
  one. The two Corners of the wall always differ, and a Corner taken from the index is
  strictly within tolerance of the endpoint bound to it.
\<close>

theorem add_wall_binds_endpoints:
  assumes "add_wall p1 p2 l r s = Inr s'" and "p1 \<noteq> p2"
    and "\<forall>c \<in> snd ` set (wall_corners s). c < n_corners s"
    and "find_closest s p1 (wall_corners s) (tolerance_distance s) [] = (c1, b1)"
    and "or_new_corner c1 p1 s = (n1, s1)"
    and "find_closest s1 p2 (wall_corners s1) (tolerance_distance s) [] = (c2, b2)"
  shows "walls s' = walls s @ [n_walls s]
     \<and> Wall_p1 s' (n_walls s) \<noteq> Wall_p2 s' (n_walls s)
     \<and> (Wall_p1 s' (n_walls s) \<in> snd ` set (wall_corners s)
          \<and> real_of_int (manhattan_distance_between
                (Corner_pos s (Wall_p1 s' (n_walls s))) p1) < tolerance_distance s
        \<or> n_corners s \<le> Wall_p1 s' (n_walls s)
          \<and> Corner_pos s' (Wall_p1 s' (n_walls s)) = p1)
     \<and> (Wall_p2 s' (n_walls s) \<in> snd ` set (wall_corners s)
          \<and> real_of_int (manhattan_distance_between
                (Corner_pos s (Wall_p2 s' (n_walls s))) p2) < tolerance_distance s
        \<or> n_corners s \<le> Wall_p2 s' (n_walls s)
          \<and> Corner_pos s' (Wall_p2 s' (n_walls s)) = p2)
     \<and> (c1 = None \<longleftrightarrow>
          (\<forall>c \<in> snd ` set (wall_corners s).
             \<not> real_of_int (manhattan_distance_between (Corner_pos s c) p1)
                 < tolerance_distance s))
     \<and> (c1 = None \<longrightarrow> n1 = n_corners s \<and> Corner_pos s1 n1 = p1)
     \<and> (\<forall>c. c1 = Some c \<longrightarrow> n1 = c \<and> s1 = s
           \<and> (\<forall>c' \<in> snd ` set (wall_corners s).
                 manhattan_distance_between (Corner_pos s c) p1
                   \<le> manhattan_distance_between (Corner_pos s c') p1))
     \<and> (c2 = None \<longleftrightarrow>
          (\<forall>c \<in> snd ` set (wall_corners s1).
             \<not> real_of_int (manhattan_distance_between (Corner_pos s1 c) p2)
                 < tolerance_distance s))
     \<and> (\<forall>c'. c2 = Some c' \<longrightarrow>
           (\<forall>d \<in> snd ` set (wall_corners s1).
                 manhattan_distance_between (Corner_pos s1 c') p2
                   \<le> manhattan_distance_between (Corner_pos s1 d) p2))
     \<and> (c2 \<noteq> Some n1 \<longrightarrow> Wall_p1 s' (n_walls s) = n1)
     \<and> (\<forall>c'. c2 = Some c' \<and> c' \<noteq> n1 \<longrightarrow> Wall_p2 s' (n_walls s) = c')
     \<and> (c2 = None \<longrightarrow>
           Wall_p2 s' (n_walls s) = n_corners s1 \<and> Corner_pos s' (n_corners s1) = p2)
     \<and> (c2 = Some n1
           \<and> manhattan_distance_between (Corner_pos s1 n1) p1
               < manhattan_distance_between (Corner_pos s1 n1) p2 \<longrightarrow>
         Wall_p1 s' (n_walls s) = n1
         \<and> (\<forall>b. b2 = Some b \<longrightarrow> Wall_p2 s' (n_walls s) = b)
         \<and> (b2 = None \<longrightarrow>
              Wall_p2 s' (n_walls s) = n_corners s1 \<and> Corner_pos s' (n_corners s1) = p2))
     \<and> (c2 = Some n1
           \<and> \<not> manhattan_distance_between (Corner_pos s1 n1) p1
                 < manhattan_distance_between (Corner_pos s1 n1) p2 \<longrightarrow>
         Wall_p2 s' (n_walls s) = n1
         \<and> (\<forall>b. b1 = Some b \<longrightarrow> Wall_p1 s' (n_walls s) = b)
         \<and> (b1 = None \<longrightarrow>
              Wall_p1 s' (n_walls s) = n_corners s1 \<and> Corner_pos s' (n_corners s1) = p1))"
proof -
  note e = add_wall_endpoints [OF assms(1,2,3) refl refl]
  note ch = add_wall_choice [OF assms]
  note st1 = or_new_corner_cases [OF assms(5)]
  have none1: "c1 = None \<longleftrightarrow>
          (\<forall>c \<in> snd ` set (wall_corners s).
             \<not> real_of_int (manhattan_distance_between (Corner_pos s c) p1)
                 < tolerance_distance s)"
    using find_closest_None_iff [of s p1 "wall_corners s" "tolerance_distance s"] assms(4)
    by simp
  have none2: "c2 = None \<longleftrightarrow>
          (\<forall>c \<in> snd ` set (wall_corners s1).
             \<not> real_of_int (manhattan_distance_between (Corner_pos s1 c) p2)
                 < tolerance_distance s)"
    using find_closest_None_iff [of s1 p2 "wall_corners s1" "tolerance_distance s"] assms(6)
    by simp
  have near1: "\<forall>c' \<in> snd ` set (wall_corners s).
                 manhattan_distance_between (Corner_pos s c) p1
                   \<le> manhattan_distance_between (Corner_pos s c') p1" if "c1 = Some c" for c
    using find_closest_nearest [of s p1 "wall_corners s" "tolerance_distance s" c] assms(4) that
    by simp
  have near2: "\<forall>d \<in> snd ` set (wall_corners s1).
                 manhattan_distance_between (Corner_pos s1 c') p2
                   \<le> manhattan_distance_between (Corner_pos s1 d) p2" if "c2 = Some c'" for c'
    using find_closest_nearest [of s1 p2 "wall_corners s1" "tolerance_distance s" c'] assms(6) that
    by simp
  have new1: "n1 = n_corners s \<and> Corner_pos s1 n1 = p1" if "c1 = None"
    using st1 that by auto
  have old1: "n1 = c \<and> s1 = s" if "c1 = Some c" for c
    using st1 that by auto
  have k1: "\<forall>c. c1 = Some c \<longrightarrow> n1 = c \<and> s1 = s
           \<and> (\<forall>c' \<in> snd ` set (wall_corners s).
                 manhattan_distance_between (Corner_pos s c) p1
                   \<le> manhattan_distance_between (Corner_pos s c') p1)"
    using old1 near1 by blast
  have k2: "\<forall>c'. c2 = Some c' \<longrightarrow>
           (\<forall>d \<in> snd ` set (wall_corners s1).
                 manhattan_distance_between (Corner_pos s1 c') p2
                   \<le> manhattan_distance_between (Corner_pos s1 d) p2)"
    using near2 by blast
  have k3: "c2 \<noteq> Some n1 \<longrightarrow> Wall_p1 s' (n_walls s) = n1"
    using ch(1) by blast
  have k4: "\<forall>c'. c2 = Some c' \<and> c' \<noteq> n1 \<longrightarrow> Wall_p2 s' (n_walls s) = c'"
    using ch(2) by blast
  have k5: "c2 = None \<longrightarrow>
           Wall_p2 s' (n_walls s) = n_corners s1 \<and> Corner_pos s' (n_corners s1) = p2"
    using ch(3) by blast
  have k6: "c2 = Some n1
           \<and> manhattan_distance_between (Corner_pos s1 n1) p1
               < manhattan_distance_between (Corner_pos s1 n1) p2 \<longrightarrow>
         Wall_p1 s' (n_walls s) = n1
         \<and> (\<forall>b. b2 = Some b \<longrightarrow> Wall_p2 s' (n_walls s) = b)
         \<and> (b2 = None \<longrightarrow>
              Wall_p2 s' (n_walls s) = n_corners s1 \<and> Corner_pos s' (n_corners s1) = p2)"
    using ch(4) by (intro impI) (elim conjE, assumption)
  have k7: "c2 = Some n1
           \<and> \<not> manhattan_distance_between (Corner_pos s1 n1) p1
                 < manhattan_distance_between (Corner_pos s1 n1) p2 \<longrightarrow>
         Wall_p2 s' (n_walls s) = n1
         \<and> (\<forall>b. b1 = Some b \<longrightarrow> Wall_p1 s' (n_walls s) = b)
         \<and> (b1 = None \<longrightarrow>
              Wall_p1 s' (n_walls s) = n_corners s1 \<and> Corner_pos s' (n_corners s1) = p1)"
    using ch(5) by (intro impI) (elim conjE, assumption)
  have k0: "c1 = None \<longrightarrow> n1 = n_corners s \<and> Corner_pos s1 n1 = p1"
    using new1 by blast
  from e(2) e(1) e(3) e(4) none1 k0 k1 none2 k2 k3 k4 k5 k6 k7
  show ?thesis by (intro conjI)
qed


theorem add_wall_binds_endpoints_witness:
  "find_closest tilted_house (5, 5) (wall_corners tilted_house)
       (tolerance_distance tilted_house) [] = (None, None)
   \<and> snd ` set (wall_corners tilted_house) = {0, 1} \<and> n_corners tilted_house = 2
   \<and> Corner_pos tilted_house 1 = (1, 100)
   \<and> (\<exists>s'. add_wall (5, 5) (1, 100) None None tilted_house = Inr s'
         \<and> Wall_p1 s' (n_walls tilted_house) = 2 \<and> Corner_pos s' 2 = (5, 5)
         \<and> Wall_p2 s' (n_walls tilted_house) = 1)"
proof -
  have vals: "snd ` set (wall_corners tilted_house) = {0, 1}" "n_corners tilted_house = 2"
    "Corner_pos tilted_house (Suc 0) = (1, 100)"
    by (simp_all add: tilted_house_def new_house_def)
  have alloc: "\<forall>c \<in> snd ` set (wall_corners tilted_house). c < n_corners tilted_house"
    by (simp add: vals)
  have ne: "(5::int, 5::int) \<noteq> (1, 100)" by simp
  obtain s' where add: "add_wall (5, 5) (1, 100) None None tilted_house = Inr s'"
    by (simp add: add_wall_def find_closest_def distance_tuples_def or_new_corner_def
        new_corner_def tilted_house_def new_house_def manhattan_distance_between_def Let_def
        corner_key_def str_int_def str_nat.simps)
  have fc1: "find_closest tilted_house (5, 5) (wall_corners tilted_house)
                   (tolerance_distance tilted_house) [] = (None, None)"
    by (simp add: find_closest_def distance_tuples_def tilted_house_def new_house_def
        manhattan_distance_between_def)
  have on1: "or_new_corner None (5, 5) tilted_house = (2, snd (new_corner (5, 5) tilted_house))"
    by (simp add: or_new_corner_def new_corner_def Let_def vals)
  have fc2: "find_closest (snd (new_corner (5, 5) tilted_house)) (1, 100)
               (wall_corners (snd (new_corner (5, 5) tilted_house)))
               (tolerance_distance tilted_house) [] = (Some 1, None)"
    by (simp add: find_closest_def distance_tuples_def new_corner_def Let_def
        tilted_house_def new_house_def manhattan_distance_between_def
        corner_key_def str_int_def str_nat.simps)
  from add_wall_binds_endpoints [OF add ne alloc fc1 on1 fc2]
  have p: "Wall_p1 s' (n_walls tilted_house) = 2" "Wall_p2 s' (n_walls tilted_house) = 1"
    by simp_all
  from add_wall_binds_endpoints [OF add ne alloc fc1 on1 fc2]
  have "Wall_p1 s' (n_walls tilted_house) \<in> snd ` set (wall_corners tilted_house)
          \<and> real_of_int (manhattan_distance_between
                (Corner_pos tilted_house (Wall_p1 s' (n_walls tilted_house))) (5, 5))
              < tolerance_distance tilted_house
        \<or> n_corners tilted_house \<le> Wall_p1 s' (n_walls tilted_house)
          \<and> Corner_pos s' (Wall_p1 s' (n_walls tilted_house)) = (5, 5)"
    by (elim conjE)
  with p(1) vals have "Corner_pos s' 2 = (5, 5)" by simp
  with add p fc1 vals show ?thesis by simp
qed

text \<open>
  C2, the failing run. With a tolerance of 5, the raw endpoint \<open>(3, 3)\<close> is at Manhattan
  (L1) distance 6 from the Corner at \<open>(0, 0)\<close>, more than the tolerance, and yet it is
  merged into it: \<open>manhattan_distance_between\<close> returns the larger coordinate
  difference, 3. The second wall starts at the first wall's Corner, and the two walls
  have three Corners in all.
\<close>

theorem add_wall_manhattan_merge_counterexample:
  "tolerance_distance new_house = 5
   \<and> real_of_int (\<bar>0 - 3\<bar> + \<bar>0 - 3\<bar>) > tolerance_distance new_house
   \<and> (\<exists>s1 s2. add_wall (0, 0) (100, 0) None None new_house = Inr s1
         \<and> add_wall (3, 3) (3, 100) None None s1 = Inr s2
         \<and> walls s2 = [0, 1] \<and> Wall_p1 s2 1 = Wall_p1 s2 0 \<and> n_corners s2 = 3)"
  by (simp add: add_wall_def find_closest_def distance_tuples_def or_new_corner_def
      new_corner_def link_wall_def new_house_def manhattan_distance_between_def Let_def
      corner_key_def str_int_def str_nat.simps)

text \<open>The graph of \<open>collapse_house\<close> is the one \<open>add_wall\<close> builds from its two wall
  records.\<close>

lemma collapse_house_built:
  "\<exists>s1 s2. add_wall (0, 0) (1, 100) None None (new_house\<lparr>tolerance_distance := 1 / 2\<rparr>) = Inr s1
     \<and> add_wall (0, 0) (1, 0) None None s1 = Inr s2
     \<and> Corner_pos s2 0 = Corner_pos collapse_house 0
     \<and> Corner_pos s2 1 = Corner_pos collapse_house 1
     \<and> Corner_pos s2 2 = Corner_pos collapse_house 2
     \<and> wall_corners s2 = wall_corners collapse_house
     \<and> Wall_p1 s2 0 = Wall_p1 collapse_house 0 \<and> Wall_p2 s2 0 = Wall_p2 collapse_house 0
     \<and> Wall_p1 s2 1 = Wall_p1 collapse_house 1 \<and> Wall_p2 s2 1 = Wall_p2 collapse_house 1
     \<and> walls s2 = walls collapse_house"
  by (simp add: add_wall_def find_closest_def distance_tuples_def or_new_corner_def
      new_corner_def link_wall_def new_house_def manhattan_distance_between_def Let_def
      corner_key_def str_int_def str_nat.simps collapse_house_def)

section \<open>Opening resolver: the interval of a Hole\<close>

lemma door_pairs:
  "sort_key fst (wall_door_pairs door_house (max_door_perpendicular_offset example_conf)
      (w_doors [long_door, tilted_door]))
   = [(0, (0, ((2, 0), (13, 0))), 0), (3, (1, ((0, 4), (3, 3))), 0)]"
  by (simp add: wall_door_pairs_def w_doors_def wall_line_def long_door_def tilted_door_def
      line_contains_check_def wall_segment_def door_house_def new_house_def get_pd_def
      sq_distance_def example_conf_def upt_rec Let_def sqrt_cmp)

lemma door_run:
  "Wall_holes (add_doors example_conf [long_door, tilted_door] door_house) 0 = [0, 1]
   \<and> Hole_min_x (add_doors example_conf [long_door, tilted_door] door_house) 0 = 2
   \<and> Hole_max_x (add_doors example_conf [long_door, tilted_door] door_house) 0 = 13
   \<and> Hole_min_x (add_doors example_conf [long_door, tilted_door] door_house) 1 = 4
   \<and> Hole_max_x (add_doors example_conf [long_door, tilted_door] door_house) 1 = 3
   \<and> Hole_id (add_doors example_conf [long_door, tilted_door] door_house) 0 = ''hole_0''"
  unfolding add_doors_def door_pairs
  by (simp add: get_closest_and_furthest_def new_hole_def generate_hole_id_def
      manhattan_distance_between_def sq_distance_def door_house_def new_house_def Let_def
      str_int_def str_nat.simps sqrt_cmp)


lemma new_hole_fields:
  assumes "new_hole lo hi t = (h, t')"
  shows "h = n_holes t" "n_holes t' = Suc (n_holes t)"
    "Hole_min_x t' = (Hole_min_x t)(h := lo)" "Hole_max_x t' = (Hole_max_x t)(h := hi)"
    "Hole_type t' = (Hole_type t)(h := None)"
    "Corner_pos t' = Corner_pos t" "Wall_p1 t' = Wall_p1 t" "Wall_p2 t' = Wall_p2 t"
    "Wall_holes t' = Wall_holes t" "walls t' = walls t"
  using assms by (auto simp: new_hole_def generate_hole_id_def Let_def)

lemma add_doors_loop_inv:
  assumes "set pairs \<subseteq> P"
    and "Corner_pos t = cp" and "Wall_p1 t = w1"
    and "\<forall>w. \<forall>h \<in> set (Wall_holes t w). h < n_holes t
           \<and> Hole_type t h = None
           \<and> (\<exists>pd door. (pd, door, w) \<in> P
                \<and> Hole_min_x t h = manhattan_distance_between (cp (w1 w))
                     (fst (get_closest_and_furthest (cp (w1 w)) (fst (snd door)) (snd (snd door))))
                \<and> Hole_max_x t h = manhattan_distance_between (cp (w1 w))
                     (snd (get_closest_and_furthest (cp (w1 w)) (fst (snd door)) (snd (snd door)))))"
  shows "\<forall>w. \<forall>h \<in> set (Wall_holes (add_doors_loop pairs added t) w).
           h < n_holes (add_doors_loop pairs added t)
           \<and> Hole_type (add_doors_loop pairs added t) h = None
           \<and> (\<exists>pd door. (pd, door, w) \<in> P
                \<and> Hole_min_x (add_doors_loop pairs added t) h
                    = manhattan_distance_between (cp (w1 w))
                     (fst (get_closest_and_furthest (cp (w1 w)) (fst (snd door)) (snd (snd door))))
                \<and> Hole_max_x (add_doors_loop pairs added t) h
                    = manhattan_distance_between (cp (w1 w))
                     (snd (get_closest_and_furthest (cp (w1 w)) (fst (snd door)) (snd (snd door)))))"
  using assms
proof (induction pairs arbitrary: added t)
  case Nil
  then show ?case by simp
next
  case (Cons x pairs)
  obtain pd door wall where x: "x = (pd, door, wall)" by (cases x)
  show ?case
  proof (cases "fst door \<in> set added")
    case True
    with Cons x show ?thesis by simp
  next
    case False
    let ?a = "cp (w1 wall)"
    let ?g = "get_closest_and_furthest ?a (fst (snd door)) (snd (snd door))"
    obtain h t' where nh: "new_hole (manhattan_distance_between ?a (fst ?g))
        (manhattan_distance_between ?a (snd ?g)) t = (h, t')"
      by (cases "new_hole (manhattan_distance_between ?a (fst ?g))
        (manhattan_distance_between ?a (snd ?g)) t")
    note f = new_hole_fields [OF nh]
    let ?t'' = "t'\<lparr>Wall_holes := (Wall_holes t')(wall := Wall_holes t' wall @ [h])\<rparr>"
    have step: "add_doors_loop (x # pairs) added t = add_doors_loop pairs (added @ [fst door]) ?t''"
      using False nh Cons.prems(2,3) by (simp add: x Let_def split_beta)
    have mem: "(pd, door, wall) \<in> P"
      using Cons.prems(1) x by simp
    have inv: "\<forall>w. \<forall>k \<in> set (Wall_holes ?t'' w). k < n_holes ?t''
           \<and> Hole_type ?t'' k = None
           \<and> (\<exists>pd door. (pd, door, w) \<in> P
                \<and> Hole_min_x ?t'' k = manhattan_distance_between (cp (w1 w))
                     (fst (get_closest_and_furthest (cp (w1 w)) (fst (snd door)) (snd (snd door))))
                \<and> Hole_max_x ?t'' k = manhattan_distance_between (cp (w1 w))
                     (snd (get_closest_and_furthest (cp (w1 w)) (fst (snd door)) (snd (snd door)))))"
    proof (intro allI ballI)
      fix w k assume k: "k \<in> set (Wall_holes ?t'' w)"
      show "k < n_holes ?t''
           \<and> Hole_type ?t'' k = None
           \<and> (\<exists>pd door. (pd, door, w) \<in> P
                \<and> Hole_min_x ?t'' k = manhattan_distance_between (cp (w1 w))
                     (fst (get_closest_and_furthest (cp (w1 w)) (fst (snd door)) (snd (snd door))))
                \<and> Hole_max_x ?t'' k = manhattan_distance_between (cp (w1 w))
                     (snd (get_closest_and_furthest (cp (w1 w)) (fst (snd door)) (snd (snd door)))))"
      proof (cases "k = h")
        case True
        have "w = wall"
        proof (rule ccontr)
          assume "w \<noteq> wall"
          with k f(9) have "k \<in> set (Wall_holes t w)" by simp
          with Cons.prems(4) have "k < n_holes t" by blast
          with True f(1) show False by simp
        qed
        then have w: "w = wall" .
        have a: "k < n_holes ?t''" "Hole_type ?t'' k = None"
          using True f by simp_all
        have c: "Hole_min_x ?t'' k = manhattan_distance_between (cp (w1 w)) (fst ?g)"
          "Hole_max_x ?t'' k = manhattan_distance_between (cp (w1 w)) (snd ?g)"
          using True f w by simp_all
        from a c mem w show ?thesis by blast
      next
        case False
        with k f(9) have old: "k \<in> set (Wall_holes t w)"
          by (auto split: if_splits)
        with Cons.prems(4) have "k < n_holes t
           \<and> Hole_type t k = None
           \<and> (\<exists>pd door. (pd, door, w) \<in> P
                \<and> Hole_min_x t k = manhattan_distance_between (cp (w1 w))
                     (fst (get_closest_and_furthest (cp (w1 w)) (fst (snd door)) (snd (snd door))))
                \<and> Hole_max_x t k = manhattan_distance_between (cp (w1 w))
                     (snd (get_closest_and_furthest (cp (w1 w)) (fst (snd door)) (snd (snd door)))))"
          by blast
        moreover have "Hole_min_x ?t'' k = Hole_min_x t k" "Hole_max_x ?t'' k = Hole_max_x t k"
          "Hole_type ?t'' k = Hole_type t k" "n_holes t < n_holes ?t''"
          using False f by simp_all
        ultimately show ?thesis by simp
      qed
    qed
    have "set pairs \<subseteq> P" using Cons.prems(1) by simp
    moreover have "Corner_pos ?t'' = cp" "Wall_p1 ?t'' = w1"
      using f Cons.prems(2,3) by simp_all
    ultimately show ?thesis
      unfolding step using inv by (rule Cons.IH)
  qed
qed


lemma wall_door_pairs_mem:
  "(pd, door, w) \<in> set (wall_door_pairs s margin doors) \<Longrightarrow>
   door \<in> set doors \<and> w \<in> set (walls s)
   \<and> line_contains_check (wall_segment s w) (snd door) margin = Some pd"
  by (auto simp: wall_door_pairs_def split: option.splits)

lemma w_doors_mem: "door \<in> set (w_doors openings) \<Longrightarrow> snd door \<in> wall_line ` set openings"
  by (cases door) (auto simp: w_doors_def dest: set_zip_rightD)

lemma axis_interval:
  fixes a b q1 q2 :: point
  assumes "snd a = snd b \<and> snd q1 = snd a \<and> snd q2 = snd a
           \<and> min (fst a) (fst b) \<le> fst q1 \<and> fst q1 \<le> max (fst a) (fst b)
           \<and> min (fst a) (fst b) \<le> fst q2 \<and> fst q2 \<le> max (fst a) (fst b)
         \<or> fst a = fst b \<and> fst q1 = fst a \<and> fst q2 = fst a
           \<and> min (snd a) (snd b) \<le> snd q1 \<and> snd q1 \<le> max (snd a) (snd b)
           \<and> min (snd a) (snd b) \<le> snd q2 \<and> snd q2 \<le> max (snd a) (snd b)"
  shows "manhattan_distance_between a (fst (get_closest_and_furthest a q1 q2))
           \<le> manhattan_distance_between a (snd (get_closest_and_furthest a q1 q2))"
    and "real_of_int (manhattan_distance_between a (snd (get_closest_and_furthest a q1 q2)))
           \<le> sq_distance a b"
proof -
  have sq: "sq_distance a q = real_of_int (manhattan_distance_between a q)"
    if "snd q = snd a \<or> fst q = fst a" for q
    using that by (auto simp: sq_distance_def manhattan_distance_between_def)
  have q: "snd q1 = snd a \<or> fst q1 = fst a" "snd q2 = snd a \<or> fst q2 = fst a"
    "snd b = snd a \<or> fst b = fst a"
    using assms by auto
  show "manhattan_distance_between a (fst (get_closest_and_furthest a q1 q2))
           \<le> manhattan_distance_between a (snd (get_closest_and_furthest a q1 q2))"
    using sq [OF q(1)] sq [OF q(2)] by (simp add: get_closest_and_furthest_def)
  have "manhattan_distance_between a q1 \<le> manhattan_distance_between a b"
    "manhattan_distance_between a q2 \<le> manhattan_distance_between a b"
    using assms by (auto simp: manhattan_distance_between_def)
  then show "real_of_int (manhattan_distance_between a (snd (get_closest_and_furthest a q1 q2)))
           \<le> sq_distance a b"
    using sq [OF q(3)] by (simp add: get_closest_and_furthest_def)
qed


text \<open>Where a Hole comes from: an accepted opening of its wall, whose endpoints give
  its two bounds.\<close>

lemma add_doors_hole_origin:
  assumes "\<forall>w. Wall_holes s w = []"
    and "h \<in> set (Wall_holes (add_doors conf openings s) w)"
  shows "\<exists>dr \<in> set openings.
     (let a = Corner_pos s (Wall_p1 s w); b = Corner_pos s (Wall_p2 s w);
          q1 = fst (wall_line dr); q2 = snd (wall_line dr);
          lo = Hole_min_x (add_doors conf openings s) h;
          hi = Hole_max_x (add_doors conf openings s) h
      in w \<in> set (walls s)
       \<and> line_contains_check (a, b) (q1, q2) (max_door_perpendicular_offset conf) \<noteq> None
       \<and> lo = manhattan_distance_between a (fst (get_closest_and_furthest a q1 q2))
       \<and> hi = manhattan_distance_between a (snd (get_closest_and_furthest a q1 q2))
       \<and> 0 \<le> lo \<and> 0 \<le> hi
       \<and> (snd a = snd b \<and> snd q1 = snd a \<and> snd q2 = snd a
             \<and> min (fst a) (fst b) \<le> fst q1 \<and> fst q1 \<le> max (fst a) (fst b)
             \<and> min (fst a) (fst b) \<le> fst q2 \<and> fst q2 \<le> max (fst a) (fst b)
           \<or> fst a = fst b \<and> fst q1 = fst a \<and> fst q2 = fst a
             \<and> min (snd a) (snd b) \<le> snd q1 \<and> snd q1 \<le> max (snd a) (snd b)
             \<and> min (snd a) (snd b) \<le> snd q2 \<and> snd q2 \<le> max (snd a) (snd b)
           \<longrightarrow> lo \<le> hi \<and> real_of_int hi \<le> sq_distance a b))"
proof -
  let ?margin = "max_door_perpendicular_offset conf"
  let ?all = "wall_door_pairs s ?margin (w_doors openings)"
  let ?s' = "add_doors conf openings s"
  let ?a = "Corner_pos s (Wall_p1 s w)" and ?b = "Corner_pos s (Wall_p2 s w)"
  have "set (sort_key fst ?all) \<subseteq> set ?all" by simp
  moreover have "Corner_pos s = Corner_pos s" "Wall_p1 s = Wall_p1 s" by simp_all
  moreover have "\<forall>w. \<forall>h \<in> set (Wall_holes s w). h < n_holes s
           \<and> Hole_type s h = None
           \<and> (\<exists>pd door. (pd, door, w) \<in> set ?all
                \<and> Hole_min_x s h = manhattan_distance_between (Corner_pos s (Wall_p1 s w))
                     (fst (get_closest_and_furthest (Corner_pos s (Wall_p1 s w))
                        (fst (snd door)) (snd (snd door))))
                \<and> Hole_max_x s h = manhattan_distance_between (Corner_pos s (Wall_p1 s w))
                     (snd (get_closest_and_furthest (Corner_pos s (Wall_p1 s w))
                        (fst (snd door)) (snd (snd door)))))"
    using assms(1) by simp
  ultimately have "\<forall>w. \<forall>h \<in> set (Wall_holes ?s' w). h < n_holes ?s'
           \<and> Hole_type ?s' h = None
           \<and> (\<exists>pd door. (pd, door, w) \<in> set ?all
                \<and> Hole_min_x ?s' h = manhattan_distance_between (Corner_pos s (Wall_p1 s w))
                     (fst (get_closest_and_furthest (Corner_pos s (Wall_p1 s w))
                        (fst (snd door)) (snd (snd door))))
                \<and> Hole_max_x ?s' h = manhattan_distance_between (Corner_pos s (Wall_p1 s w))
                     (snd (get_closest_and_furthest (Corner_pos s (Wall_p1 s w))
                        (fst (snd door)) (snd (snd door)))))"
    unfolding add_doors_def by (rule add_doors_loop_inv)
  with assms(2) obtain pd door where
    pair: "(pd, door, w) \<in> set ?all"
    and lo: "Hole_min_x ?s' h = manhattan_distance_between ?a
               (fst (get_closest_and_furthest ?a (fst (snd door)) (snd (snd door))))"
    and hi: "Hole_max_x ?s' h = manhattan_distance_between ?a
               (snd (get_closest_and_furthest ?a (fst (snd door)) (snd (snd door))))"
    by blast
  from wall_door_pairs_mem [OF pair]
  have door: "door \<in> set (w_doors openings)" and w: "w \<in> set (walls s)"
    and lc: "line_contains_check (wall_segment s w) (snd door) ?margin = Some pd"
    by simp_all
  from w_doors_mem [OF door] obtain dr where
    op: "dr \<in> set openings" "snd door = wall_line dr"
    by auto
  let ?q1 = "fst (wall_line dr)" and ?q2 = "snd (wall_line dr)"
  have lc': "line_contains_check (?a, ?b) (?q1, ?q2) ?margin \<noteq> None"
    using lc op(2) by (simp add: wall_segment_def)
  have nonneg: "0 \<le> Hole_min_x ?s' h" "0 \<le> Hole_max_x ?s' h"
    unfolding lo hi by (rule manhattan_distance_nonneg)+
  have "(let a = ?a; b = ?b; q1 = ?q1; q2 = ?q2;
          lo = Hole_min_x ?s' h; hi = Hole_max_x ?s' h
      in w \<in> set (walls s)
       \<and> line_contains_check (a, b) (q1, q2) ?margin \<noteq> None
       \<and> lo = manhattan_distance_between a (fst (get_closest_and_furthest a q1 q2))
       \<and> hi = manhattan_distance_between a (snd (get_closest_and_furthest a q1 q2))
       \<and> 0 \<le> lo \<and> 0 \<le> hi
       \<and> (snd a = snd b \<and> snd q1 = snd a \<and> snd q2 = snd a
             \<and> min (fst a) (fst b) \<le> fst q1 \<and> fst q1 \<le> max (fst a) (fst b)
             \<and> min (fst a) (fst b) \<le> fst q2 \<and> fst q2 \<le> max (fst a) (fst b)
           \<or> fst a = fst b \<and> fst q1 = fst a \<and> fst q2 = fst a
             \<and> min (snd a) (snd b) \<le> snd q1 \<and> snd q1 \<le> max (snd a) (snd b)
             \<and> min (snd a) (snd b) \<le> snd q2 \<and> snd q2 \<le> max (snd a) (snd b)
           \<longrightarrow> lo \<le> hi \<and> real_of_int hi \<le> sq_distance a b))"
    unfolding Let_def
    using w lc' lo hi nonneg op(2) axis_interval [of ?a ?b ?q1 ?q2]
    by (intro conjI impI) simp_all
  with op(1) show ?thesis by blast
qed

lemma inner_door_run:
  "Wall_holes (add_doors example_conf [inner_door] door_house) 0 = [0]"
proof -
  have "sort_key fst (wall_door_pairs door_house (max_door_perpendicular_offset example_conf)
      (w_doors [inner_door])) = [(0, (0, ((2, 0), (6, 0))), 0)]"
    by (simp add: wall_door_pairs_def w_doors_def wall_line_def inner_door_def
      line_contains_check_def wall_segment_def door_house_def new_house_def get_pd_def
      sq_distance_def example_conf_def Let_def sqrt_cmp)
  then show ?thesis
    unfolding add_doors_def
    by (simp add: get_closest_and_furthest_def new_hole_def generate_hole_id_def
      manhattan_distance_between_def sq_distance_def door_house_def new_house_def Let_def
      sqrt_cmp)
qed

lemma sq_distance_less_iff:
  "sq_distance a q1 < sq_distance a q2 \<longleftrightarrow>
     (fst a - fst q1)\<^sup>2 + (snd a - snd q1)\<^sup>2 < (fst a - fst q2)\<^sup>2 + (snd a - snd q2)\<^sup>2"
  unfolding sq_distance_def by (simp only: real_sqrt_less_iff of_int_less_iff)

lemma int_abs_less_square: "\<bar>x\<bar> < \<bar>y\<bar> \<longleftrightarrow> x\<^sup>2 < (y::int)\<^sup>2"
  using abs_le_square_iff [of y x] by auto

text \<open>An opening parallel to an axis-aligned wall, with both endpoints over the wall's
  span.\<close>

lemma parallel_interval:
  fixes a b q1 q2 :: point
  assumes "snd a = snd b" and "snd q1 = snd q2"
    and "min (fst a) (fst b) \<le> fst q1" "fst q1 \<le> max (fst a) (fst b)"
    and "min (fst a) (fst b) \<le> fst q2" "fst q2 \<le> max (fst a) (fst b)"
  shows "manhattan_distance_between a (fst (get_closest_and_furthest a q1 q2))
           \<le> manhattan_distance_between a (snd (get_closest_and_furthest a q1 q2))"
    and "real_of_int (manhattan_distance_between a (snd (get_closest_and_furthest a q1 q2)))
           \<le> sq_distance a b \<longleftrightarrow> \<bar>snd q1 - snd a\<bar> \<le> \<bar>fst b - fst a\<bar>"
proof -
  have len: "sq_distance a b = real_of_int \<bar>fst b - fst a\<bar>"
    using assms(1) by (simp add: sq_distance_def abs_minus_commute)
  have order: "sq_distance a q1 < sq_distance a q2 \<longleftrightarrow> \<bar>fst a - fst q1\<bar> < \<bar>fst a - fst q2\<bar>"
    using assms(2) by (simp add: sq_distance_less_iff int_abs_less_square)
  show "manhattan_distance_between a (fst (get_closest_and_furthest a q1 q2))
           \<le> manhattan_distance_between a (snd (get_closest_and_furthest a q1 q2))"
    using assms(2) order
    by (auto simp: get_closest_and_furthest_def manhattan_distance_between_def)
  have "\<bar>fst a - fst q1\<bar> \<le> \<bar>fst b - fst a\<bar>" "\<bar>fst a - fst q2\<bar> \<le> \<bar>fst b - fst a\<bar>"
    using assms(3-6) by auto
  then have "manhattan_distance_between a (snd (get_closest_and_furthest a q1 q2))
           \<le> \<bar>fst b - fst a\<bar> \<longleftrightarrow> \<bar>snd q1 - snd a\<bar> \<le> \<bar>fst b - fst a\<bar>"
    using assms(2)
    by (auto simp: get_closest_and_furthest_def manhattan_distance_between_def
        abs_minus_commute)
  then show "real_of_int (manhattan_distance_between a (snd (get_closest_and_furthest a q1 q2)))
           \<le> sq_distance a b \<longleftrightarrow> \<bar>snd q1 - snd a\<bar> \<le> \<bar>fst b - fst a\<bar>"
    unfolding len by (simp only: of_int_le_iff)
qed


lemma parallel_interval_y:
  fixes a b q1 q2 :: point
  assumes "fst a = fst b" and "fst q1 = fst q2"
    and "min (snd a) (snd b) \<le> snd q1" "snd q1 \<le> max (snd a) (snd b)"
    and "min (snd a) (snd b) \<le> snd q2" "snd q2 \<le> max (snd a) (snd b)"
  shows "manhattan_distance_between a (fst (get_closest_and_furthest a q1 q2))
           \<le> manhattan_distance_between a (snd (get_closest_and_furthest a q1 q2))"
    and "real_of_int (manhattan_distance_between a (snd (get_closest_and_furthest a q1 q2)))
           \<le> sq_distance a b \<longleftrightarrow> \<bar>fst q1 - fst a\<bar> \<le> \<bar>snd b - snd a\<bar>"
proof -
  have len: "sq_distance a b = real_of_int \<bar>snd b - snd a\<bar>"
    using assms(1) by (simp add: sq_distance_def abs_minus_commute)
  have order: "sq_distance a q1 < sq_distance a q2 \<longleftrightarrow> \<bar>snd a - snd q1\<bar> < \<bar>snd a - snd q2\<bar>"
    using assms(2) by (simp add: sq_distance_less_iff int_abs_less_square)
  show "manhattan_distance_between a (fst (get_closest_and_furthest a q1 q2))
           \<le> manhattan_distance_between a (snd (get_closest_and_furthest a q1 q2))"
    using assms(2) order
    by (auto simp: get_closest_and_furthest_def manhattan_distance_between_def)
  have "\<bar>snd a - snd q1\<bar> \<le> \<bar>snd b - snd a\<bar>" "\<bar>snd a - snd q2\<bar> \<le> \<bar>snd b - snd a\<bar>"
    using assms(3-6) by auto
  then have "manhattan_distance_between a (snd (get_closest_and_furthest a q1 q2))
           \<le> \<bar>snd b - snd a\<bar> \<longleftrightarrow> \<bar>fst q1 - fst a\<bar> \<le> \<bar>snd b - snd a\<bar>"
    using assms(2)
    by (auto simp: get_closest_and_furthest_def manhattan_distance_between_def
        abs_minus_commute)
  then show "real_of_int (manhattan_distance_between a (snd (get_closest_and_furthest a q1 q2)))
           \<le> sq_distance a b \<longleftrightarrow> \<bar>fst q1 - fst a\<bar> \<le> \<bar>snd b - snd a\<bar>"
    unfolding len by (simp only: of_int_le_iff)
qed

text \<open>A point of the segment from \<open>a\<close> to \<open>b\<close> is \<open>a + (k / D) (b - a)\<close> with \<open>0 \<le> k \<le> D\<close>:
  both of its distances from \<open>a\<close> are \<open>k / D\<close> times those of \<open>b\<close>.\<close>

lemma on_segment_scaled:
  fixes a b q :: point
  assumes "on_segment a b q"
  defines "D \<equiv> (fst b - fst a)\<^sup>2 + (snd b - snd a)\<^sup>2"
    and "k \<equiv> (fst q - fst a) * (fst b - fst a) + (snd q - snd a) * (snd b - snd a)"
  shows "0 \<le> k" and "k \<le> D"
    and "manhattan_distance_between a q * D = k * manhattan_distance_between a b"
    and "((fst a - fst q)\<^sup>2 + (snd a - snd q)\<^sup>2) * D = k\<^sup>2"
proof -
  from assms(1) have cross:
    "(fst q - fst a) * (snd b - snd a) = (snd q - snd a) * (fst b - fst a)"
    and k: "0 \<le> k" "k \<le> D"
    by (simp_all add: on_segment_def D_def k_def)
  show "0 \<le> k" "k \<le> D" by (rule k)+
  have D: "0 \<le> D" by (simp add: D_def)
  have x: "(fst a - fst q) * D = k * (fst a - fst b)"
    unfolding D_def k_def using cross by algebra
  have y: "(snd a - snd q) * D = k * (snd a - snd b)"
    unfolding D_def k_def using cross by algebra
  have "\<bar>fst a - fst q\<bar> * D = k * \<bar>fst a - fst b\<bar>"
    using arg_cong [OF x, of abs] k(1) D by (simp add: abs_mult)
  moreover have "\<bar>snd a - snd q\<bar> * D = k * \<bar>snd a - snd b\<bar>"
    using arg_cong [OF y, of abs] k(1) D by (simp add: abs_mult)
  ultimately show "manhattan_distance_between a q * D = k * manhattan_distance_between a b"
    using k(1) D
    by (simp add: manhattan_distance_between_def max_mult_distrib_right max_mult_distrib_left)
  show "((fst a - fst q)\<^sup>2 + (snd a - snd q)\<^sup>2) * D = k\<^sup>2"
    unfolding D_def k_def using cross by algebra
qed


lemma segment_interval:
  fixes a b q1 q2 :: point
  assumes "a \<noteq> b" and "on_segment a b q1" and "on_segment a b q2"
  shows "manhattan_distance_between a (fst (get_closest_and_furthest a q1 q2))
           \<le> manhattan_distance_between a (snd (get_closest_and_furthest a q1 q2))"
    and "real_of_int (manhattan_distance_between a (snd (get_closest_and_furthest a q1 q2)))
           \<le> sq_distance a b"
proof -
  define D where "D = (fst b - fst a)\<^sup>2 + (snd b - snd a)\<^sup>2"
  define k where
    "k q = (fst q - fst a) * (fst b - fst a) + (snd q - snd a) * (snd b - snd a)" for q :: point
  define M where "M = manhattan_distance_between a b"
  note s1 = on_segment_scaled [OF assms(2), folded D_def k_def M_def]
    and s2 = on_segment_scaled [OF assms(3), folded D_def k_def M_def]
  from assms(1) have "fst b - fst a \<noteq> 0 \<or> snd b - snd a \<noteq> 0"
    by (auto simp: prod_eq_iff)
  then have D: "0 < D"
    unfolding D_def by (simp only: sum_power2_gt_zero_iff)
  have M: "0 \<le> M" unfolding M_def by (rule manhattan_distance_nonneg)
  have order: "sq_distance a q1 < sq_distance a q2 \<longleftrightarrow> k q1 < k q2"
  proof -
    have "sq_distance a q1 < sq_distance a q2 \<longleftrightarrow>
        ((fst a - fst q1)\<^sup>2 + (snd a - snd q1)\<^sup>2) * D
          < ((fst a - fst q2)\<^sup>2 + (snd a - snd q2)\<^sup>2) * D"
      using D by (simp add: sq_distance_less_iff)
    also have "\<dots> \<longleftrightarrow> (k q1)\<^sup>2 < (k q2)\<^sup>2"
      by (simp only: s1(4) s2(4))
    also have "\<dots> \<longleftrightarrow> \<bar>k q1\<bar> < \<bar>k q2\<bar>"
      by (rule int_abs_less_square [symmetric])
    also have "\<dots> \<longleftrightarrow> k q1 < k q2"
      using s1(1) s2(1) by (simp only: abs_of_nonneg)
    finally show ?thesis .
  qed
  have le_of: "manhattan_distance_between a p \<le> manhattan_distance_between a p'"
    if "manhattan_distance_between a p * D = k p * M"
      "manhattan_distance_between a p' * D = k p' * M" "k p \<le> k p'" for p p'
  proof -
    have "manhattan_distance_between a p * D \<le> manhattan_distance_between a p' * D"
      unfolding that(1,2) using that(3) M by (rule mult_right_mono)
    with D show ?thesis by simp
  qed
  show "manhattan_distance_between a (fst (get_closest_and_furthest a q1 q2))
           \<le> manhattan_distance_between a (snd (get_closest_and_furthest a q1 q2))"
    using order le_of [OF s1(3) s2(3)] le_of [OF s2(3) s1(3)]
    by (auto simp: get_closest_and_furthest_def)
  have bound: "manhattan_distance_between a p \<le> M"
    if "manhattan_distance_between a p * D = k p * M" "k p \<le> D" for p
  proof -
    have "k p * M \<le> D * M"
      using that(2) M by (rule mult_right_mono)
    then have "manhattan_distance_between a p * D \<le> M * D"
      unfolding that(1) by (simp only: mult.commute)
    with D show ?thesis by simp
  qed
  have "real_of_int M \<le> sq_distance a b"
  proof -
    have "\<bar>fst a - fst b\<bar>\<^sup>2 \<le> (fst a - fst b)\<^sup>2 + (snd a - snd b)\<^sup>2"
      "\<bar>snd a - snd b\<bar>\<^sup>2 \<le> (fst a - fst b)\<^sup>2 + (snd a - snd b)\<^sup>2"
      by simp_all
    then have "M\<^sup>2 \<le> (fst a - fst b)\<^sup>2 + (snd a - snd b)\<^sup>2"
      unfolding M_def manhattan_distance_between_def max_def
      by (cases "\<bar>fst a - fst b\<bar> \<le> \<bar>snd a - snd b\<bar>") (simp_all only: if_True if_False)
    then have "(real_of_int M)\<^sup>2 \<le> real_of_int ((fst a - fst b)\<^sup>2 + (snd a - snd b)\<^sup>2)"
      by (metis of_int_le_iff of_int_power)
    then show ?thesis
      unfolding sq_distance_def using M by (simp add: real_le_rsqrt)
  qed
  moreover have "manhattan_distance_between a (snd (get_closest_and_furthest a q1 q2)) \<le> M"
    using bound [OF s1(3) s1(2)] bound [OF s2(3) s2(2)]
    by (simp add: get_closest_and_furthest_def)
  ultimately show "real_of_int (manhattan_distance_between a
        (snd (get_closest_and_furthest a q1 q2))) \<le> sq_distance a b"
    by linarith
qed

text \<open>
  C8. Every Hole that opening assignment puts on a wall \<open>w\<close> comes from an opening
  record that \<open>line_contains_check\<close> accepts for \<open>w\<close>; its \<open>min_x\<close> and \<open>max_x\<close> are what
  \<open>manhattan_distance_between\<close> returns from the wall's first endpoint to the opening's
  endpoint that is nearer to it in Euclidean distance and to the other one, so both
  are at least 0. Nothing orders or clamps them. \<open>min_x \<le> max_x\<close> and
  \<open>max_x \<le> wall_length\<close> hold when both endpoints of the opening lie on the wall's
  segment, whatever the wall's direction. When the wall is axis-aligned and the
  opening is parallel to it, with both endpoints over the wall's span, \<open>min_x \<le> max_x\<close>
  holds, and \<open>max_x \<le> wall_length\<close> holds exactly when the opening's offset from the
  wall is at most the wall's length.
\<close>

theorem add_doors_hole_interval:
  assumes "\<forall>w. Wall_holes s w = []"
    and "h \<in> set (Wall_holes (add_doors conf openings s) w)"
  shows "\<exists>dr \<in> set openings.
     (let a = Corner_pos s (Wall_p1 s w); b = Corner_pos s (Wall_p2 s w);
          q1 = fst (wall_line dr); q2 = snd (wall_line dr);
          lo = Hole_min_x (add_doors conf openings s) h;
          hi = Hole_max_x (add_doors conf openings s) h
      in w \<in> set (walls s)
       \<and> line_contains_check (a, b) (q1, q2) (max_door_perpendicular_offset conf) \<noteq> None
       \<and> lo = manhattan_distance_between a (fst (get_closest_and_furthest a q1 q2))
       \<and> hi = manhattan_distance_between a (snd (get_closest_and_furthest a q1 q2))
       \<and> 0 \<le> lo \<and> 0 \<le> hi
       \<and> (a \<noteq> b \<and> on_segment a b q1 \<and> on_segment a b q2
           \<longrightarrow> lo \<le> hi \<and> real_of_int hi \<le> sq_distance a b)
       \<and> (snd a = snd b \<and> snd q1 = snd q2
             \<and> min (fst a) (fst b) \<le> fst q1 \<and> fst q1 \<le> max (fst a) (fst b)
             \<and> min (fst a) (fst b) \<le> fst q2 \<and> fst q2 \<le> max (fst a) (fst b)
           \<longrightarrow> lo \<le> hi
             \<and> (real_of_int hi \<le> sq_distance a b
                  \<longleftrightarrow> \<bar>snd q1 - snd a\<bar> \<le> \<bar>fst b - fst a\<bar>))
       \<and> (fst a = fst b \<and> fst q1 = fst q2
             \<and> min (snd a) (snd b) \<le> snd q1 \<and> snd q1 \<le> max (snd a) (snd b)
             \<and> min (snd a) (snd b) \<le> snd q2 \<and> snd q2 \<le> max (snd a) (snd b)
           \<longrightarrow> lo \<le> hi
             \<and> (real_of_int hi \<le> sq_distance a b
                  \<longleftrightarrow> \<bar>fst q1 - fst a\<bar> \<le> \<bar>snd b - snd a\<bar>)))"
proof -
  let ?s' = "add_doors conf openings s"
  let ?a = "Corner_pos s (Wall_p1 s w)" and ?b = "Corner_pos s (Wall_p2 s w)"
  from add_doors_hole_origin [OF assms] obtain dr where
    dr: "dr \<in> set openings" and w: "w \<in> set (walls s)"
    and lc: "line_contains_check (?a, ?b) (fst (wall_line dr), snd (wall_line dr))
               (max_door_perpendicular_offset conf) \<noteq> None"
    and lo: "Hole_min_x ?s' h = manhattan_distance_between ?a
               (fst (get_closest_and_furthest ?a (fst (wall_line dr)) (snd (wall_line dr))))"
    and hi: "Hole_max_x ?s' h = manhattan_distance_between ?a
               (snd (get_closest_and_furthest ?a (fst (wall_line dr)) (snd (wall_line dr))))"
    and nonneg: "0 \<le> Hole_min_x ?s' h" "0 \<le> Hole_max_x ?s' h"
    unfolding Let_def by blast
  let ?q1 = "fst (wall_line dr)" and ?q2 = "snd (wall_line dr)"
  have "(let a = ?a; b = ?b; q1 = ?q1; q2 = ?q2;
          lo = Hole_min_x ?s' h; hi = Hole_max_x ?s' h
      in w \<in> set (walls s)
       \<and> line_contains_check (a, b) (q1, q2) (max_door_perpendicular_offset conf) \<noteq> None
       \<and> lo = manhattan_distance_between a (fst (get_closest_and_furthest a q1 q2))
       \<and> hi = manhattan_distance_between a (snd (get_closest_and_furthest a q1 q2))
       \<and> 0 \<le> lo \<and> 0 \<le> hi
       \<and> (a \<noteq> b \<and> on_segment a b q1 \<and> on_segment a b q2
           \<longrightarrow> lo \<le> hi \<and> real_of_int hi \<le> sq_distance a b)
       \<and> (snd a = snd b \<and> snd q1 = snd q2
             \<and> min (fst a) (fst b) \<le> fst q1 \<and> fst q1 \<le> max (fst a) (fst b)
             \<and> min (fst a) (fst b) \<le> fst q2 \<and> fst q2 \<le> max (fst a) (fst b)
           \<longrightarrow> lo \<le> hi
             \<and> (real_of_int hi \<le> sq_distance a b
                  \<longleftrightarrow> \<bar>snd q1 - snd a\<bar> \<le> \<bar>fst b - fst a\<bar>))
       \<and> (fst a = fst b \<and> fst q1 = fst q2
             \<and> min (snd a) (snd b) \<le> snd q1 \<and> snd q1 \<le> max (snd a) (snd b)
             \<and> min (snd a) (snd b) \<le> snd q2 \<and> snd q2 \<le> max (snd a) (snd b)
           \<longrightarrow> lo \<le> hi
             \<and> (real_of_int hi \<le> sq_distance a b
                  \<longleftrightarrow> \<bar>fst q1 - fst a\<bar> \<le> \<bar>snd b - snd a\<bar>)))"
    unfolding Let_def lo hi
    using w lc nonneg [unfolded lo hi]
      segment_interval [of ?a ?b ?q1 ?q2]
      parallel_interval [of ?a ?b ?q1 ?q2] parallel_interval_y [of ?a ?b ?q1 ?q2]
    by (intro conjI impI; (elim conjE)?; assumption?) blast+
  with dr show ?thesis by blast
qed


lemma offset_door_run:
  "Wall_holes (add_doors example_conf [offset_door] door_house) 0 = [0]"
proof -
  have "sort_key fst (wall_door_pairs door_house (max_door_perpendicular_offset example_conf)
      (w_doors [offset_door])) = [(1, (0, ((2, 1), (6, 1))), 0)]"
    by (simp add: wall_door_pairs_def w_doors_def wall_line_def offset_door_def
      line_contains_check_def wall_segment_def door_house_def new_house_def get_pd_def
      sq_distance_def example_conf_def Let_def sqrt_cmp)
  then show ?thesis
    unfolding add_doors_def
    by (simp add: get_closest_and_furthest_def new_hole_def generate_hole_id_def
      manhattan_distance_between_def sq_distance_def door_house_def new_house_def Let_def
      sqrt_cmp)
qed

theorem add_doors_hole_interval_witness:
  "(\<forall>w. Wall_holes door_house w = [])
   \<and> 0 \<in> set (Wall_holes (add_doors example_conf [offset_door] door_house) 0)
   \<and> wall_line offset_door = ((2, 1), (6, 1))
   \<and> Hole_min_x (add_doors example_conf [offset_door] door_house) 0 = 2
   \<and> Hole_max_x (add_doors example_conf [offset_door] door_house) 0 = 6
   \<and> sq_distance (Corner_pos door_house (Wall_p1 door_house 0))
        (Corner_pos door_house (Wall_p2 door_house 0)) = 10"
proof -
  have h1: "\<forall>w. Wall_holes door_house w = []"
    by (simp add: door_house_def new_house_def)
  have h2: "0 \<in> set (Wall_holes (add_doors example_conf [offset_door] door_house) 0)"
    by (simp add: offset_door_run)
  have vals: "Corner_pos door_house (Wall_p1 door_house 0) = (0, 0)"
    "Corner_pos door_house (Wall_p2 door_house 0) = (10, 0)"
    "wall_line offset_door = ((2, 1), (6, 1))"
    by (simp_all add: door_house_def new_house_def wall_line_def offset_door_def)
  have len: "sq_distance (0, 0) (10, 0) = 10"
    by (simp add: sq_distance_def)
  from add_doors_hole_interval [OF h1 h2]
  have "Hole_min_x (add_doors example_conf [offset_door] door_house) 0 = 2
   \<and> Hole_max_x (add_doors example_conf [offset_door] door_house) 0 = 6"
    by (simp add: vals Let_def get_closest_and_furthest_def sq_distance_def
        manhattan_distance_between_def sqrt_cmp)
  with h1 h2 len show ?thesis by (simp add: vals)
qed

text \<open>
  C8, the failing runs. On the wall from \<open>(0, 0)\<close> to \<open>(10, 0)\<close>, of length 10, the
  opening from \<open>(0, 4)\<close> to \<open>(3, 3)\<close> is accepted and becomes a Hole with \<open>min_x = 4\<close> and
  \<open>max_x = 3\<close>: the endpoints are ordered by Euclidean distance, 4 and \<open>sqrt 18\<close>, and
  valued by \<open>manhattan_distance_between\<close>, which returns the larger coordinate
  difference, 4 and 3, where the Manhattan distances are 4 and 6. The opening from
  \<open>(2, 0)\<close> to \<open>(13, 0)\<close> is accepted and becomes the Hole \<open>[2, 13]\<close>, which ends past
  the wall.
\<close>

theorem add_doors_hole_interval_counterexample:
  "(\<forall>w. Wall_holes door_house w = [])
   \<and> Wall_holes (add_doors example_conf [long_door, tilted_door] door_house) 0 = [0, 1]
   \<and> sq_distance (Corner_pos door_house (Wall_p1 door_house 0))
        (Corner_pos door_house (Wall_p2 door_house 0)) = 10
   \<and> Hole_min_x (add_doors example_conf [long_door, tilted_door] door_house) 0 = 2
   \<and> Hole_max_x (add_doors example_conf [long_door, tilted_door] door_house) 0 = 13
   \<and> Hole_min_x (add_doors example_conf [long_door, tilted_door] door_house) 1 = 4
   \<and> Hole_max_x (add_doors example_conf [long_door, tilted_door] door_house) 1 = 3"
proof -
  have "\<forall>w. Wall_holes door_house w = []"
    by (simp add: door_house_def new_house_def)
  moreover have "sq_distance (Corner_pos door_house (Wall_p1 door_house 0))
        (Corner_pos door_house (Wall_p2 door_house 0)) = 10"
    by (simp add: door_house_def new_house_def sq_distance_def)
  ultimately show ?thesis using door_run by simp
qed

section \<open>Room keys after straightening\<close>

lemma wall_in_frozenset:
  "wall_in s wall (frozenset t ws)
     \<longleftrightarrow> wall \<in> set ws \<and> LineSegment_repr s wall = LineSegment_repr t wall"
  by (auto simp: wall_in_def frozenset_def)

lemma fst_frozenset: "fst ` frozenset t ws = set ws"
  by (force simp: frozenset_def)

lemma leaning_reprs:
  "LineSegment_repr leaning_house 0 = ''<0_0:100_0>''"
  "LineSegment_repr leaning_house 1 = ''<100_0:200_0>''"
  "LineSegment_repr leaning_house 6 = ''<100_0:101_100>''"
  "LineSegment_repr upright_house 0 = ''<0_0:101_0>''"
  "LineSegment_repr upright_house 1 = ''<101_0:200_0>''"
  "LineSegment_repr upright_house 6 = ''<101_0:101_100>''"
  "LineSegment_repr leaning_graph = LineSegment_repr leaning_house"
  by (simp_all add: LineSegment_repr_def upright_house_def leaning_house_def leaning_graph_def
      new_house_def corner_key_def str_int_def str_nat.simps fun_eq_iff)

lemma leaning_step:
  "correction_step (1 / 10) leaning_house = (Continue, upright_house)"
  by (simp add: correction_step_def choose_move_def move_corner_def Let_def
      upright_house_def leaning_house_def leaning_graph_def new_house_def
      sq_distance_def x_slope_def y_slope_def sqrt_cmp
      corner_key_def str_int_def str_nat.simps)

lemma upright_step:
  "correction_step (1 / 10) upright_house = (Break, upright_house)"
  by (simp add: correction_step_def upright_house_def leaning_house_def leaning_graph_def
      new_house_def sq_distance_def x_slope_def y_slope_def sqrt_cmp)

lemma leaning_straightened:
  "straighten_walls example_conf leaning_house = (None, upright_house)"
  by (simp add: straighten_walls_def example_conf_def straighten_loop.simps
      leaning_step upright_step)


lemma room_keys_differ: "left_room \<noteq> right_room"
proof
  assume "left_room = right_room"
  then have "4 \<in> fst ` left_room \<longleftrightarrow> 4 \<in> fst ` right_room" by (simp only:)
  then show False by (simp add: left_room_def right_room_def fst_frozenset)
qed

lemma leaning_wall_in:
  "wall_in leaning_house w left_room \<longleftrightarrow> w \<in> {6, 4, 5, 0}"
  "wall_in leaning_house w right_room \<longleftrightarrow> w \<in> {6, 1, 2, 3}"
  by (simp_all add: left_room_def right_room_def wall_in_frozenset leaning_reprs(7))

lemma upright_repr_other:
  "w \<notin> {0, 1, 6} \<Longrightarrow> LineSegment_repr upright_house w = LineSegment_repr leaning_house w"
  by (simp add: LineSegment_repr_def upright_house_def leaning_house_def leaning_graph_def
      new_house_def)

lemma upright_wall_in:
  "wall_in upright_house w left_room \<longleftrightarrow> w \<in> {4, 5}"
  "wall_in upright_house w right_room \<longleftrightarrow> w \<in> {2, 3}"
  using upright_repr_other [of w] leaning_reprs(1-6)
  by (auto simp: left_room_def right_room_def wall_in_frozenset leaning_reprs(7)
      simp del: One_nat_def)

lemma leaning_room_map:
  "room_description_map leaning_house = [(left_room, [6, 4, 5, 0]), (right_room, [6, 1, 2, 3])]"
  "room_description_map upright_house = room_description_map leaning_house"
  by (simp_all add: leaning_house_def upright_house_def)

lemma leaning_adjacent:
  "find_adjacent_rooms leaning_house 6 = [left_room, right_room]"
  "find_adjacent_rooms leaning_house 0 = [left_room]"
  by (simp_all add: find_adjacent_rooms_def leaning_wall_in leaning_room_map)

lemma upright_adjacent:
  "find_adjacent_rooms upright_house 6 = []"
  "find_adjacent_rooms upright_house 0 = []"
  by (simp_all add: find_adjacent_rooms_def upright_wall_in leaning_room_map)


lemma leaning_found_in:
  "{k \<in> fst ` set (room_description_map leaning_house). wall_in leaning_house 6 k}
     = {left_room, right_room}"
  "{k \<in> fst ` set (room_description_map leaning_house). wall_in leaning_house 0 k}
     = {left_room}"
  by (auto simp: leaning_room_map leaning_wall_in)

theorem compute_rdr_door_edges_witness:
  "rdr leaning_house = []
   \<and> {k \<in> fst ` set (room_description_map leaning_house). wall_in leaning_house 6 k}
       = {left_room, right_room}
   \<and> left_room \<noteq> right_room
   \<and> Hole_type leaning_house 0 = Some ''door''
   \<and> (filter (\<lambda>e. fst (snd e) = 0) (rdr (compute_rdr leaning_house))
         = [(left_room, 0, Some right_room), (right_room, 0, Some left_room)]
       \<or> filter (\<lambda>e. fst (snd e) = 0) (rdr (compute_rdr leaning_house))
         = [(right_room, 0, Some left_room), (left_room, 0, Some right_room)])
   \<and> {k \<in> fst ` set (room_description_map leaning_house). wall_in leaning_house 0 k}
       = {left_room}
   \<and> filter (\<lambda>e. fst (snd e) = 1) (rdr (compute_rdr leaning_house)) = [(left_room, 1, None)]"
proof -
  have h: "rdr leaning_house = []" "distinct (map fst (room_description_map leaning_house))"
    "distinct (concat (map (Wall_holes leaning_house) (walls leaning_house)))"
    "6 \<in> set (walls leaning_house)" "0 \<in> set (Wall_holes leaning_house 6)"
    "0 \<in> set (walls leaning_house)" "1 \<in> set (Wall_holes leaning_house 0)"
    "Hole_type leaning_house 0 = Some ''door''" "Hole_type leaning_house 1 = Some ''door''"
    by (simp_all add: leaning_room_map room_keys_differ)
       (simp_all add: leaning_house_def leaning_graph_def new_house_def)
  from compute_rdr_door_edges [OF h(1,2,3,4,5,8), of left_room right_room]
       compute_rdr_door_edges [OF h(1,2,3,6,7,9), of left_room right_room]
  show ?thesis using h(1,8) room_keys_differ leaning_found_in by simp
qed

text \<open>
  C7, the failing run. \<open>straighten_walls\<close> moves Corner 1 of the leaning house. Wall 6
  is still an element of the two room keys, and it still carries its door, but
  \<open>wall in room_key\<close> now looks it up under the string \<open><101_0:101_100>\<close> while the keys
  hold it under \<open><100_0:101_100>\<close>: \<open>compute_rdr\<close> finds no room for it and appends no
  edge, neither for this door nor for the door of wall 0.
\<close>

theorem compute_rdr_after_straightening_counterexample:
  "straighten_walls example_conf leaning_house = (None, upright_house)
   \<and> rdr upright_house = []
   \<and> {k \<in> fst ` set (room_description_map upright_house). 6 \<in> fst ` k}
       = {left_room, right_room}
   \<and> left_room \<noteq> right_room
   \<and> 0 \<in> set (Wall_holes upright_house 6) \<and> Hole_type upright_house 0 = Some ''door''
   \<and> LineSegment_repr leaning_house 6 = ''<100_0:101_100>''
   \<and> LineSegment_repr upright_house 6 = ''<101_0:101_100>''
   \<and> find_adjacent_rooms upright_house 6 = []
   \<and> rdr (compute_rdr upright_house) = []"
proof -
  have holes: "Wall_holes upright_house = (\<lambda>w. if w = 6 then [0] else if w = 0 then [1] else [])"
    "Hole_type upright_house 0 = Some ''door''" "rdr upright_house = []"
    "walls upright_house = [0, 1, 2, 3, 4, 5, 6]"
    by (simp_all add: upright_house_def leaning_house_def leaning_graph_def new_house_def)
  have keys: "{k \<in> fst ` set (room_description_map upright_house). 6 \<in> fst ` k}
       = {left_room, right_room}"
    by (auto simp: leaning_room_map left_room_def right_room_def fst_frozenset)
  have "rdr (compute_rdr upright_house) = []"
    by (simp add: compute_rdr_def holes hole_edges_def upright_adjacent)
  with holes keys show ?thesis
    by (simp add: leaning_straightened room_keys_differ leaning_reprs upright_adjacent)
qed

text \<open>
  C10, the failing run. \<open>straighten_walls\<close> on the leaning house writes neither the room
  map nor any wall, but the walls at the Corner it moves are hashed by new strings:
  before the call the code finds walls 0, 1 and 6 in the keys of their rooms, after it
  it finds none of them in any key.
\<close>

theorem straighten_walls_membership_counterexample:
  "straighten_walls example_conf leaning_house = (None, upright_house)
   \<and> room_description_map upright_house = room_description_map leaning_house
   \<and> room_description_map leaning_house
       = [(left_room, [6, 4, 5, 0]), (right_room, [6, 1, 2, 3])]
   \<and> wall_in leaning_house 0 left_room \<and> wall_in leaning_house 6 left_room
   \<and> wall_in leaning_house 1 right_room \<and> wall_in leaning_house 6 right_room
   \<and> \<not> wall_in upright_house 0 left_room \<and> \<not> wall_in upright_house 6 left_room
   \<and> \<not> wall_in upright_house 1 right_room \<and> \<not> wall_in upright_house 6 right_room
   \<and> left_room = frozenset leaning_house [6, 4, 5, 0]
   \<and> left_room \<noteq> frozenset upright_house [6, 4, 5, 0]"
proof -
  have "(0, ''<0_0:101_0>'') \<in> frozenset upright_house [6, 4, 5, 0]"
    by (simp add: frozenset_def leaning_reprs)
  moreover have "(0, ''<0_0:101_0>'') \<notin> left_room"
    by (simp add: left_room_def frozenset_def leaning_reprs)
  ultimately have "left_room \<noteq> frozenset upright_house [6, 4, 5, 0]" by blast
  moreover have "left_room = frozenset leaning_house [6, 4, 5, 0]"
    by (simp add: left_room_def frozenset_def leaning_reprs(7))
  ultimately show ?thesis
    by (simp add: leaning_straightened leaning_room_map leaning_wall_in upright_wall_in)
qed

section \<open>Room extractor: closing a trace\<close>






























lemma two_room_built:
  "add_walls two_room_walls
     (new_house\<lparr>ran_draws := d, wall_corners := [], tolerance_distance := 10, walls := []\<rparr>)
   = Inr (two_room_house\<lparr>ran_draws := d\<rparr>)"
  by (simp add: two_room_walls_def wall_record_def new_house_def two_room_house_def
      add_wall_def find_closest_def distance_tuples_def or_new_corner_def
      new_corner_def link_wall_def manhattan_distance_between_def Let_def
      corner_key_def str_int_def str_nat.simps fun_eq_iff)

end
